theory Spec2Isabelle
  imports Complex_Main "HOL-Library.Log_Nat"
begin

section \<open>Numbers of the program\<close>

text \<open>
  The script \<^verbatim>\<open>calculate_do_saturation.py\<close> computes with Python numbers and with
  \<^verbatim>\<open>numpy.float64\<close> scalars (the results of \<^verbatim>\<open>np.exp\<close>, \<^verbatim>\<open>np.log\<close>, \<^verbatim>\<open>np.round\<close>
  and the elements of \<^verbatim>\<open>np.linspace\<close>).  In this first model a binary64 value is an exact
  real number or one of the three special values.  Infinities and NaN arise as they do in
  numpy: from a division by zero, from the logarithm of a number that is not positive, and
  from the overflow of \<^verbatim>\<open>10 ** x\<close>, which Python answers with an \<^verbatim>\<open>OverflowError\<close>.
  Rounding, underflow, the overflow of the other operations and the sign of zero are not
  part of this model (a zero is the positive zero); the binary64 models further down round.
\<close>

datatype fval = Fin real | PInf | NInf | NaN

text \<open>
  A number is a Python built-in (\<open>Py\<close>: an int or a float) or a numpy scalar (\<open>Np\<close>).
  The two differ in division by zero: Python raises, numpy returns an infinity or NaN
  and only warns.
\<close>

datatype number = Py fval | Np fval

datatype error = ZeroDivisionError | OverflowError | ValueError "string list"

fun val :: "number \<Rightarrow> fval" where
  "val (Py v) = v"
| "val (Np v) = v"

fun is_np :: "number \<Rightarrow> bool" where
  "is_np (Py v) = False"
| "is_np (Np v) = True"

subsection \<open>Arithmetic on values\<close>

fun fneg :: "fval \<Rightarrow> fval" where
  "fneg (Fin x) = Fin (- x)"
| "fneg PInf = NInf"
| "fneg NInf = PInf"
| "fneg NaN = NaN"

fun fadd :: "fval \<Rightarrow> fval \<Rightarrow> fval" where
  "fadd NaN b = NaN"
| "fadd a NaN = NaN"
| "fadd (Fin x) (Fin y) = Fin (x + y)"
| "fadd PInf NInf = NaN"
| "fadd NInf PInf = NaN"
| "fadd PInf b = PInf"
| "fadd NInf b = NInf"
| "fadd a PInf = PInf"
| "fadd a NInf = NInf"

definition fsub :: "fval \<Rightarrow> fval \<Rightarrow> fval" where
  "fsub a b = fadd a (fneg b)"

fun fmul :: "fval \<Rightarrow> fval \<Rightarrow> fval" where
  "fmul NaN b = NaN"
| "fmul a NaN = NaN"
| "fmul (Fin x) (Fin y) = Fin (x * y)"
| "fmul (Fin x) PInf = (if x = 0 then NaN else if 0 < x then PInf else NInf)"
| "fmul (Fin x) NInf = (if x = 0 then NaN else if 0 < x then NInf else PInf)"
| "fmul PInf (Fin y) = (if y = 0 then NaN else if 0 < y then PInf else NInf)"
| "fmul NInf (Fin y) = (if y = 0 then NaN else if 0 < y then NInf else PInf)"
| "fmul PInf PInf = PInf"
| "fmul PInf NInf = NInf"
| "fmul NInf PInf = NInf"
| "fmul NInf NInf = PInf"

text \<open>IEEE division: it never fails; a zero divisor gives an infinity or NaN.\<close>

fun fdiv :: "fval \<Rightarrow> fval \<Rightarrow> fval" where
  "fdiv NaN b = NaN"
| "fdiv a NaN = NaN"
| "fdiv (Fin x) (Fin y) =
     (if y = 0 then (if x = 0 then NaN else if 0 < x then PInf else NInf)
      else Fin (x / y))"
| "fdiv (Fin x) PInf = Fin 0"
| "fdiv (Fin x) NInf = Fin 0"
| "fdiv PInf (Fin y) = (if 0 \<le> y then PInf else NInf)"
| "fdiv NInf (Fin y) = (if 0 \<le> y then NInf else PInf)"
| "fdiv a b = NaN"

text \<open>
  A real result at or above \<open>overflow_bound\<close>, the midpoint between the largest binary64
  number and \<open>2 ^ 1024\<close>, rounds to infinity.
\<close>

definition overflow_bound :: real where
  "overflow_bound = 2 ^ 1024 - 2 ^ 970"

text \<open>\<^verbatim>\<open>10 ** x\<close>: the power overflows to infinity for a large finite exponent.\<close>

fun pow10_overflows :: "fval \<Rightarrow> bool" where
  "pow10_overflows (Fin x) = (overflow_bound \<le> 10 powr x)"
| "pow10_overflows a = False"

fun fpow10 :: "fval \<Rightarrow> fval" where
  "fpow10 (Fin x) = (if overflow_bound \<le> 10 powr x then PInf else Fin (10 powr x))"
| "fpow10 PInf = PInf"
| "fpow10 NInf = Fin 0"
| "fpow10 NaN = NaN"

text \<open>\<^verbatim>\<open>exp\<close> and \<^verbatim>\<open>log\<close>.\<close>

fun fexp :: "fval \<Rightarrow> fval" where
  "fexp (Fin x) = Fin (exp x)"
| "fexp PInf = PInf"
| "fexp NInf = Fin 0"
| "fexp NaN = NaN"

fun flog :: "fval \<Rightarrow> fval" where
  "flog (Fin x) = (if 0 < x then Fin (ln x) else if x = 0 then NInf else NaN)"
| "flog PInf = PInf"
| "flog NInf = NaN"
| "flog NaN = NaN"

text \<open>Rounding to the nearest integer, a tie to the even one (\<^verbatim>\<open>rint\<close>).\<close>

definition rint :: "real \<Rightarrow> real" where
  "rint y =
     (let f = \<lfloor>y\<rfloor>; d = y - of_int f in
      if d < 1 / 2 then of_int f
      else if 1 / 2 < d then of_int (f + 1)
      else if even f then of_int f else of_int (f + 1))"

text \<open>\<^verbatim>\<open>np.round(x, 1)\<close>: multiply by ten, \<^verbatim>\<open>rint\<close>, divide by ten.\<close>

fun fround1 :: "fval \<Rightarrow> fval" where
  "fround1 (Fin x) = Fin (rint (x * 10) / 10)"
| "fround1 PInf = PInf"
| "fround1 NInf = NInf"
| "fround1 NaN = NaN"

text \<open>The comparison \<^verbatim>\<open>==\<close>: NaN equals nothing.\<close>

fun feq :: "fval \<Rightarrow> fval \<Rightarrow> bool" where
  "feq (Fin x) (Fin y) = (x = y)"
| "feq PInf PInf = True"
| "feq NInf NInf = True"
| "feq a b = False"

fun fless :: "fval \<Rightarrow> fval \<Rightarrow> bool" where
  "fless NaN b = False"
| "fless a NaN = False"
| "fless (Fin x) (Fin y) = (x < y)"
| "fless a NInf = False"
| "fless PInf b = False"
| "fless a b = True"

subsection \<open>The operators of Python\<close>

text \<open>
  An operator with a numpy operand is numpy's and returns a numpy scalar; between two
  Python numbers it is Python's own, whose division raises on a zero divisor and whose
  power raises on overflow.
\<close>

definition py_add :: "number \<Rightarrow> number \<Rightarrow> number" where
  "py_add a b =
     (if is_np a \<or> is_np b then Np (fadd (val a) (val b)) else Py (fadd (val a) (val b)))"

definition py_sub :: "number \<Rightarrow> number \<Rightarrow> number" where
  "py_sub a b =
     (if is_np a \<or> is_np b then Np (fsub (val a) (val b)) else Py (fsub (val a) (val b)))"

definition py_mul :: "number \<Rightarrow> number \<Rightarrow> number" where
  "py_mul a b =
     (if is_np a \<or> is_np b then Np (fmul (val a) (val b)) else Py (fmul (val a) (val b)))"

definition py_truediv :: "number \<Rightarrow> number \<Rightarrow> error + number" where
  "py_truediv a b =
     (if is_np a \<or> is_np b then Inr (Np (fdiv (val a) (val b)))
      else if val b = Fin 0 then Inl ZeroDivisionError
      else Inr (Py (fdiv (val a) (val b))))"

text \<open>
  \<^verbatim>\<open>10 ** x\<close>: numpy returns the infinity of an overflow and only warns; Python raises
  \<^verbatim>\<open>OverflowError\<close>.
\<close>

definition py_pow10 :: "number \<Rightarrow> error + number" where
  "py_pow10 x =
     (if is_np x then Inr (Np (fpow10 (val x)))
      else if pow10_overflows (val x) then Inl OverflowError
      else Inr (Py (fpow10 (val x))))"

definition np_exp :: "number \<Rightarrow> number" where
  "np_exp x = Np (fexp (val x))"

definition np_log :: "number \<Rightarrow> number" where
  "np_log x = Np (flog (val x))"

definition np_round1 :: "number \<Rightarrow> number" where
  "np_round1 x = Np (fround1 (val x))"

definition py_eq :: "number \<Rightarrow> number \<Rightarrow> bool" where
  "py_eq a b = feq (val a) (val b)"

text \<open>An exception ends the computation: the rest runs on a returned value only.\<close>

definition ebind :: "error + 'a \<Rightarrow> ('a \<Rightarrow> error + 'b) \<Rightarrow> error + 'b" where
  "ebind r f = (case r of Inl e \<Rightarrow> Inl e | Inr v \<Rightarrow> f v)"

section \<open>The functions of the script\<close>

definition ABSOLUTE_ZERO :: number where
  "ABSOLUTE_ZERO = Py (Fin (- 273.15))"

definition deg2kelvin :: "number \<Rightarrow> number" where
  "deg2kelvin x = py_sub x ABSOLUTE_ZERO"

definition kelvin2deg :: "number \<Rightarrow> number" where
  "kelvin2deg x = py_add x ABSOLUTE_ZERO"

definition vapor_pressure_of_water :: "number \<Rightarrow> error + number" where
  "vapor_pressure_of_water t =
     ebind (py_truediv (Py (Fin 1750.286)) (py_add (Py (Fin 235)) t))
       (\<lambda>q. py_pow10 (py_sub (Py (Fin 8.10765)) q))"

text \<open>The source calls \<^verbatim>\<open>vapor_pressure_of_water(t)\<close> twice, numerator first.\<close>

definition pressure_correction :: "number \<Rightarrow> number \<Rightarrow> error + number" where
  "pressure_correction p t =
     ebind (vapor_pressure_of_water t) (\<lambda>u1.
     ebind (vapor_pressure_of_water t) (\<lambda>u2.
       py_truediv (py_sub p u1) (py_sub (Py (Fin 760)) u2)))"

definition do_at_saturation :: "number \<Rightarrow> number \<Rightarrow> error + number" where
  "do_at_saturation t p =
     (let t_Kelvin = deg2kelvin t in
      ebind (py_truediv (Py (Fin 100)) t_Kelvin) (\<lambda>a.
      ebind (py_truediv t_Kelvin (Py (Fin 100))) (\<lambda>b.
      ebind (py_truediv t_Kelvin (Py (Fin 100))) (\<lambda>c.
        let do_sat = py_mul (Py (Fin 1.42905))
              (np_exp
                (py_sub
                  (py_add
                    (py_add (Py (Fin (- 173.4292))) (py_mul (Py (Fin 249.6339)) a))
                    (py_mul (Py (Fin 143.3483)) (np_log b)))
                  (py_mul (Py (Fin 21.8493)) c)))
        in ebind (pressure_correction p t) (\<lambda>f_p. Inr (py_mul do_sat f_p))))))"

definition do_saturation :: "number \<Rightarrow> number \<Rightarrow> number \<Rightarrow> error + number" where
  "do_saturation do t p =
     ebind (do_at_saturation t p) (\<lambda>do_max.
     ebind (py_truediv do do_max) (\<lambda>r.
       Inr (py_mul r (Py (Fin 100)))))"

subsection \<open>The self-test\<close>

text \<open>The list comprehension \<^verbatim>\<open>[np.round(func(*[val]), 1) for val in test_input]\<close>.\<close>

fun test_returns :: "(number \<Rightarrow> error + number) \<Rightarrow> number list \<Rightarrow> error + number list" where
  "test_returns func [] = Inr []"
| "test_returns func (v # vs) =
     ebind (func v) (\<lambda>r.
     ebind (test_returns func vs) (\<lambda>rs. Inr (np_round1 r # rs)))"

text \<open>Equality of two lists: the same length and equal elements.\<close>

fun list_eq :: "number list \<Rightarrow> number list \<Rightarrow> bool" where
  "list_eq [] [] = True"
| "list_eq (x # xs) (y # ys) = (py_eq x y \<and> list_eq xs ys)"
| "list_eq xs ys = False"

text \<open>\<open>name\<close> is \<^verbatim>\<open>func.__name__\<close>.\<close>

definition unit_test ::
  "(number \<Rightarrow> error + number) \<Rightarrow> string \<Rightarrow> number list \<Rightarrow> number list \<Rightarrow> error + unit" where
  "unit_test func name test_input test_outputs =
     ebind (test_returns func test_input) (\<lambda>rs.
       if list_eq test_outputs rs then Inr ()
       else Inl (ValueError [''function'', name, ''failed test'']))"

section \<open>The two conversions in binary64 arithmetic\<close>

text \<open>
  The conversions \<^verbatim>\<open>deg2kelvin\<close> and \<^verbatim>\<open>kelvin2deg\<close> are one floating-point addition
  each, and IEEE 754 fixes the result of an addition bit for bit.  For the claim about
  their round trip they are therefore modelled a second time, with the rounding: a finite
  binary64 number is \<open>Dbl m e\<close>, the value \<open>m * 2 ^ e\<close>, and the sum of two of them is the
  exact sum rounded to 53 significant bits (to a multiple of \<open>2 ^ - 1074\<close> in the subnormal
  range), a tie going to the even neighbour, and to an infinity from \<open>2 ^ 1024\<close> on.  The
  sign of a zero is not represented; \<^verbatim>\<open>==\<close> does not see it.
\<close>

datatype b64 = Dbl int int | DPInf | DNInf | DNaN

fun b64_val :: "b64 \<Rightarrow> real" where
  "b64_val (Dbl m e) = of_int m * 2 powr of_int e"
| "b64_val d = 0"

text \<open>\<open>rne a k\<close>: the integer nearest to \<open>a / 2 ^ k\<close>, a tie to the even one.\<close>

definition rne :: "int \<Rightarrow> nat \<Rightarrow> int" where
  "rne a k =
     (let q = a div 2 ^ k; r = a mod 2 ^ k in
      if 2 * r < 2 ^ k then q
      else if 2 ^ k < 2 * r then q + 1
      else if even q then q else q + 1)"

text \<open>
  \<open>b64_round m e\<close>: the binary64 number nearest to \<open>m * 2 ^ e\<close>.  \<open>ue\<close> is the exponent of
  the last place that binary64 keeps for a value of this size.
\<close>

definition b64_round :: "int \<Rightarrow> int \<Rightarrow> b64" where
  "b64_round m e =
     (let ue = max e (max (bitlen \<bar>m\<bar> + e - 53) (- 1074));
          q = rne m (nat (ue - e))
      in if 1024 < bitlen \<bar>q\<bar> + ue then (if 0 < m then DPInf else DNInf)
         else Dbl q ue)"

fun b64_neg :: "b64 \<Rightarrow> b64" where
  "b64_neg (Dbl m e) = Dbl (- m) e"
| "b64_neg DPInf = DNInf"
| "b64_neg DNInf = DPInf"
| "b64_neg DNaN = DNaN"

fun b64_add :: "b64 \<Rightarrow> b64 \<Rightarrow> b64" where
  "b64_add DNaN b = DNaN"
| "b64_add a DNaN = DNaN"
| "b64_add (Dbl m1 e1) (Dbl m2 e2) =
     (let e = min e1 e2
      in b64_round (m1 * 2 ^ nat (e1 - e) + m2 * 2 ^ nat (e2 - e)) e)"
| "b64_add DPInf DNInf = DNaN"
| "b64_add DNInf DPInf = DNaN"
| "b64_add DPInf b = DPInf"
| "b64_add DNInf b = DNInf"
| "b64_add a DPInf = DPInf"
| "b64_add a DNInf = DNInf"

definition b64_sub :: "b64 \<Rightarrow> b64 \<Rightarrow> b64" where
  "b64_sub a b = b64_add a (b64_neg b)"

text \<open>The comparison \<^verbatim>\<open>==\<close> of two binary64 numbers.\<close>

fun b64_eq :: "b64 \<Rightarrow> b64 \<Rightarrow> bool" where
  "b64_eq (Dbl m1 e1) (Dbl m2 e2) =
     (let e = min e1 e2 in m1 * 2 ^ nat (e1 - e) = m2 * 2 ^ nat (e2 - e))"
| "b64_eq DPInf DPInf = True"
| "b64_eq DNInf DNInf = True"
| "b64_eq a b = False"

text \<open>
  The literal \<^verbatim>\<open>- 273.15\<close> is the binary64 number \<^verbatim>\<open>-0x1.1126666666666p+8\<close>, that is
  \<open>- 4805305618032230 * 2 ^ - 44\<close> (lemma \<open>absolute_zero_nearest\<close> below).
\<close>

definition ABSOLUTE_ZERO_b64 :: b64 where
  "ABSOLUTE_ZERO_b64 = Dbl (- 4805305618032230) (- 44)"

definition deg2kelvin_b64 :: "b64 \<Rightarrow> b64" where
  "deg2kelvin_b64 x = b64_sub x ABSOLUTE_ZERO_b64"

definition kelvin2deg_b64 :: "b64 \<Rightarrow> b64" where
  "kelvin2deg_b64 x = b64_add x ABSOLUTE_ZERO_b64"

section \<open>The last line of \<open>do_saturation\<close> in binary64 arithmetic\<close>

text \<open>
  \<^verbatim>\<open>return (do / do_max) * 100\<close> is one division and one multiplication, and IEEE 754
  fixes the result of both.  \<open>do_max\<close> is the \<^verbatim>\<open>numpy.float64\<close> that \<^verbatim>\<open>do_at_saturation\<close>
  returned, so the division is numpy's and raises nothing.  Which binary64 number
  \<^verbatim>\<open>do_at_saturation\<close> returns depends on the \<^verbatim>\<open>exp\<close>, \<^verbatim>\<open>log\<close> and \<^verbatim>\<open>pow\<close> of the platform,
  which IEEE 754 does not fix; here it is an argument.
\<close>

text \<open>\<open>rne_frac a b\<close>: the integer nearest to \<open>a / b\<close> for \<open>b > 0\<close>, a tie to the even one.\<close>

definition rne_frac :: "int \<Rightarrow> int \<Rightarrow> int" where
  "rne_frac a b =
     (let q = a div b; r = a mod b in
      if 2 * r < b then q
      else if b < 2 * r then q + 1
      else if even q then q else q + 1)"

text \<open>
  \<open>b64_round_frac p d e\<close>: the binary64 number nearest to \<open>p / d * 2 ^ e\<close>, for \<open>d > 0\<close>.
  \<open>B\<close> is the number of binary digits before the point of \<open>p / d\<close>, that is
  \<open>2 ^ (B - 1) \<le> \<bar>p\<bar> / d < 2 ^ B\<close>, and \<open>ue\<close> the exponent of the last place that binary64
  keeps.
\<close>

definition b64_round_frac :: "int \<Rightarrow> int \<Rightarrow> int \<Rightarrow> b64" where
  "b64_round_frac p d e =
     (if p = 0 then Dbl 0 0
      else
        let n = bitlen \<bar>p\<bar> - bitlen d;
            B = (if d * 2 ^ nat n \<le> \<bar>p\<bar> * 2 ^ nat (- n) then n + 1 else n);
            ue = max (B + e - 53) (- 1074);
            q = rne_frac (p * 2 ^ nat (e - ue)) (d * 2 ^ nat (ue - e))
        in if 1024 < bitlen \<bar>q\<bar> + ue then (if 0 < p then DPInf else DNInf)
           else Dbl q ue)"

fun b64_mul :: "b64 \<Rightarrow> b64 \<Rightarrow> b64" where
  "b64_mul DNaN b = DNaN"
| "b64_mul a DNaN = DNaN"
| "b64_mul (Dbl m1 e1) (Dbl m2 e2) = b64_round_frac (m1 * m2) 1 (e1 + e2)"
| "b64_mul (Dbl m e) DPInf = (if m = 0 then DNaN else if 0 < m then DPInf else DNInf)"
| "b64_mul (Dbl m e) DNInf = (if m = 0 then DNaN else if 0 < m then DNInf else DPInf)"
| "b64_mul DPInf (Dbl m e) = (if m = 0 then DNaN else if 0 < m then DPInf else DNInf)"
| "b64_mul DNInf (Dbl m e) = (if m = 0 then DNaN else if 0 < m then DNInf else DPInf)"
| "b64_mul DPInf DPInf = DPInf"
| "b64_mul DPInf DNInf = DNInf"
| "b64_mul DNInf DPInf = DNInf"
| "b64_mul DNInf DNInf = DPInf"

text \<open>numpy's division: a zero divisor gives an infinity or NaN.\<close>

fun b64_div :: "b64 \<Rightarrow> b64 \<Rightarrow> b64" where
  "b64_div DNaN b = DNaN"
| "b64_div a DNaN = DNaN"
| "b64_div (Dbl m1 e1) (Dbl m2 e2) =
     (if m2 = 0 then (if m1 = 0 then DNaN else if 0 < m1 then DPInf else DNInf)
      else b64_round_frac (m1 * sgn m2) \<bar>m2\<bar> (e1 - e2))"
| "b64_div (Dbl m e) DPInf = Dbl 0 0"
| "b64_div (Dbl m e) DNInf = Dbl 0 0"
| "b64_div DPInf (Dbl m e) = (if 0 \<le> m then DPInf else DNInf)"
| "b64_div DNInf (Dbl m e) = (if 0 \<le> m then DNInf else DPInf)"
| "b64_div a b = DNaN"

text \<open>The comparisons \<^verbatim>\<open><\<close> and \<^verbatim>\<open><=\<close> of two binary64 numbers.\<close>

fun b64_less :: "b64 \<Rightarrow> b64 \<Rightarrow> bool" where
  "b64_less DNaN b = False"
| "b64_less a DNaN = False"
| "b64_less (Dbl m1 e1) (Dbl m2 e2) =
     (let e = min e1 e2 in m1 * 2 ^ nat (e1 - e) < m2 * 2 ^ nat (e2 - e))"
| "b64_less a DNInf = False"
| "b64_less DPInf b = False"
| "b64_less a b = True"

fun b64_le :: "b64 \<Rightarrow> b64 \<Rightarrow> bool" where
  "b64_le DNaN b = False"
| "b64_le a DNaN = False"
| "b64_le (Dbl m1 e1) (Dbl m2 e2) =
     (let e = min e1 e2 in m1 * 2 ^ nat (e1 - e) \<le> m2 * 2 ^ nat (e2 - e))"
| "b64_le DNInf b = True"
| "b64_le a DPInf = True"
| "b64_le a b = False"

definition do_saturation_b64 :: "b64 \<Rightarrow> b64 \<Rightarrow> b64" where
  "do_saturation_b64 do do_max = b64_mul (b64_div do do_max) (Dbl 100 0)"

section \<open>Basic facts\<close>

lemma ebind_Inr [simp]: "ebind (Inr v) f = f v"
  by (simp add: ebind_def)

lemma ebind_Inl [simp]: "ebind (Inl e) f = Inl e"
  by (simp add: ebind_def)

lemma val_py_add [simp]: "val (py_add a b) = fadd (val a) (val b)"
  by (simp add: py_add_def)
lemma val_py_sub [simp]: "val (py_sub a b) = fsub (val a) (val b)"
  by (simp add: py_sub_def)
lemma val_py_mul [simp]: "val (py_mul a b) = fmul (val a) (val b)"
  by (simp add: py_mul_def)
lemma is_np_py_add [simp]: "is_np (py_add a b) = (is_np a \<or> is_np b)"
  by (simp add: py_add_def)
lemma is_np_py_sub [simp]: "is_np (py_sub a b) = (is_np a \<or> is_np b)"
  by (simp add: py_sub_def)
lemma is_np_py_mul [simp]: "is_np (py_mul a b) = (is_np a \<or> is_np b)"
  by (simp add: py_mul_def)
lemma np_exp_simps [simp]: "is_np (np_exp a)" "val (np_exp a) = fexp (val a)"
  by (simp_all add: np_exp_def)
lemma np_log_simps [simp]: "is_np (np_log a)" "val (np_log a) = flog (val a)"
  by (simp_all add: np_log_def)

lemma py_truediv_np: "is_np a \<or> is_np b \<Longrightarrow> py_truediv a b = Inr (Np (fdiv (val a) (val b)))"
  by (simp add: py_truediv_def)

lemma ebind_eq_Inr: "ebind r f = Inr y \<longleftrightarrow> (\<exists>v. r = Inr v \<and> f v = Inr y)"
  by (cases r) simp_all

lemma do_at_saturation_np: "do_at_saturation t p = Inr r \<Longrightarrow> is_np r"
  by (auto simp: do_at_saturation_def Let_def ebind_eq_Inr)

lemma do_saturation_of_max:
  "do_at_saturation t p = Inr m \<Longrightarrow>
   do_saturation d t p = Inr (Np (fmul (fdiv (val d) (val m)) (Fin 100)))"
  by (frule do_at_saturation_np) (simp add: do_saturation_def py_truediv_np py_mul_def)

section \<open>Numeric bounds\<close>

lemma powr10_less:
  fixes c q :: real and m n :: nat
  assumes c: "0 < c" and n: "0 < n" and q: "q \<le> real m / real n" and pw: "10 ^ m < c ^ n"
  shows "10 powr q < c"
proof -
  have "(10 powr (real m / real n)) ^ n = 10 powr (real m / real n * real n)"
    by (simp add: powr_powr flip: powr_realpow)
  also have "\<dots> = 10 powr real m" using n by simp
  also have "\<dots> = 10 ^ m" by (simp add: powr_realpow)
  finally have "(10 powr (real m / real n)) ^ n < c ^ n" using pw by simp
  then have "10 powr (real m / real n) < c"
    using c by (meson less_eq_real_def power_less_imp_less_base)
  moreover have "10 powr q \<le> 10 powr (real m / real n)"
    using q by (simp add: powr_mono)
  ultimately show ?thesis by linarith
qed

lemma powr10_greater:
  fixes c q :: real and m n :: nat
  assumes c: "0 \<le> c" and n: "0 < n" and q: "real m / real n \<le> q" and pw: "c ^ n < 10 ^ m"
  shows "c < 10 powr q"
proof -
  have "(10 powr (real m / real n)) ^ n = 10 powr (real m / real n * real n)"
    by (simp add: powr_powr flip: powr_realpow)
  also have "\<dots> = 10 powr real m" using n by simp
  also have "\<dots> = 10 ^ m" by (simp add: powr_realpow)
  finally have "c ^ n < (10 powr (real m / real n)) ^ n" using pw by simp
  then have "c < 10 powr (real m / real n)"
    by (rule power_less_imp_less_base) simp
  moreover have "10 powr (real m / real n) \<le> 10 powr q"
    using q by (simp add: powr_mono)
  ultimately show ?thesis by linarith
qed

lemma pw50: "(10::real) ^ 409 < 92.55 ^ 208"
proof -
  have a: "(28974 * 10 ^ 27 :: real) \<le> 92.55 ^ 16"
    by (simp add: power_divide)
  have "(10::real) ^ 409 < (28974 * 10 ^ 27) ^ 13"
    by simp
  also have "\<dots> \<le> (92.55 ^ 16) ^ 13"
    by (rule power_mono [OF a]) simp
  also have "\<dots> = (92.55 :: real) ^ (16 * 13)"
    by (rule power_mult [symmetric])
  also have "(16::nat) * 13 = 208" by simp
  finally show ?thesis .
qed

lemma exp_lower_T:
  fixes x :: real
  assumes "0 \<le> x"
  shows "(\<Sum>k<n. x ^ k / fact k) \<le> exp x"
proof -
  obtain t where "exp x = (\<Sum>m<n. x ^ m / fact m) + exp t / fact n * x ^ n"
    using Maclaurin_exp_le [of x n] by blast
  moreover have "0 \<le> exp t / fact n * x ^ n"
    using assms by simp
  ultimately show ?thesis by linarith
qed

lemma exp_upper_T:
  fixes x :: real
  assumes "0 \<le> x" and "x \<le> 1"
  shows "exp x \<le> (\<Sum>k<n. x ^ k / fact k) + 3 * x ^ n / fact n"
proof -
  obtain t where t: "\<bar>t\<bar> \<le> \<bar>x\<bar>"
    and e: "exp x = (\<Sum>m<n. x ^ m / fact m) + exp t / fact n * x ^ n"
    using Maclaurin_exp_le [of x n] by blast
  have "t \<le> 1" using t assms by linarith
  then have "exp t \<le> exp 1" by simp
  also have "\<dots> \<le> 3" by (rule exp_le)
  finally have "exp t \<le> 3" .
  then have "exp t * (x ^ n / fact n) \<le> 3 * (x ^ n / fact n)"
    using assms by (intro mult_right_mono) simp_all
  then show ?thesis using e by (simp add: field_simps)
qed

lemma exp_lower5: "0 \<le> x \<Longrightarrow> 1 + x + x\<^sup>2 / 2 + x ^ 3 / 6 + x ^ 4 / 24 \<le> exp (x::real)"
  using exp_lower_T [of x 5] by (simp add: eval_nat_numeral lessThan_Suc)

lemma exp_upper5:
  "0 \<le> x \<Longrightarrow> x \<le> 1 \<Longrightarrow>
   exp (x::real) \<le> 1 + x + x\<^sup>2 / 2 + x ^ 3 / 6 + x ^ 4 / 24 + x ^ 5 / 40"
  using exp_upper_T [of x 5] by (simp add: eval_nat_numeral lessThan_Suc)

lemma exp_lower6:
  "0 \<le> x \<Longrightarrow> 1 + x + x\<^sup>2 / 2 + x ^ 3 / 6 + x ^ 4 / 24 + x ^ 5 / 120 \<le> exp (x::real)"
  using exp_lower_T [of x 6] by (simp add: eval_nat_numeral lessThan_Suc)

lemma exp_upper6:
  "0 \<le> x \<Longrightarrow> x \<le> 1 \<Longrightarrow>
   exp (x::real) \<le> 1 + x + x\<^sup>2 / 2 + x ^ 3 / 6 + x ^ 4 / 24 + x ^ 5 / 120 + x ^ 6 / 240"
  using exp_upper_T [of x 6] by (simp add: eval_nat_numeral lessThan_Suc)

text \<open>The logarithm of 2.9315 lies between 1.0755 and 1.07555.\<close>

lemma exp_a: "exp (1.0755::real) < 2.9315"
proof -
  have "exp (2151 / 16000 :: real) \<le> 1.143894"
    by (rule order_trans [OF exp_upper6]) (simp_all add: power_divide)
  then have "exp (2151 / 16000 :: real) ^ 8 \<le> 1.143894 ^ 8"
    by (intro power_mono) simp_all
  also have "\<dots> < (2.9315::real)" by (simp add: power_divide)
  finally have "exp (2151 / 16000 :: real) ^ 8 < 2.9315" .
  moreover have "exp (2151 / 16000 :: real) ^ 8 = exp 1.0755"
    by (simp flip: exp_of_nat_mult)
  ultimately show ?thesis by simp
qed

lemma exp_b: "2.9315 < exp (1.07555::real)"
proof -
  have "(1.143898::real) \<le> exp (21511 / 160000)"
    by (rule order_trans [OF _ exp_lower6]) (simp_all add: power_divide)
  then have "(1.143898::real) ^ 8 \<le> exp (21511 / 160000) ^ 8"
    by (intro power_mono) simp_all
  moreover have "(2.9315::real) < 1.143898 ^ 8" by (simp add: power_divide)
  moreover have "exp (21511 / 160000 :: real) ^ 8 = exp 1.07555"
    by (simp flip: exp_of_nat_mult)
  ultimately show ?thesis by simp
qed

lemma ln_y_lower: "1.0755 < ln (2.9315::real)"
proof -
  have "exp (1.0755::real) < exp (ln 2.9315)" using exp_a by simp
  then show ?thesis by (simp only: exp_less_cancel_iff)
qed

lemma ln_y_upper: "ln (2.9315::real) < 1.07555"
proof -
  have "exp (ln 2.9315) < exp (1.07555::real)" using exp_b by simp
  then show ?thesis by (simp only: exp_less_cancel_iff)
qed

lemma exp_lo: "9.05 / 1.42905 < exp (1.846::real)"
proof -
  have "(1.12228::real) \<le> exp (923 / 8000)"
    by (rule order_trans [OF _ exp_lower5]) (simp_all add: power_divide)
  then have "(1.12228::real) ^ 16 \<le> exp (923 / 8000) ^ 16"
    by (intro power_mono) simp_all
  moreover have "(9.05 / 1.42905 ::real) < 1.12228 ^ 16" by (simp add: power_divide)
  moreover have "exp (923 / 8000 :: real) ^ 16 = exp 1.846"
    by (simp flip: exp_of_nat_mult)
  ultimately show ?thesis by simp
qed

lemma exp_hi: "exp (1.854::real) < 9.15 / 1.42905"
proof -
  have "exp (927 / 8000 :: real) \<le> 1.1230"
    by (rule order_trans [OF exp_upper5]) (simp_all add: power_divide)
  then have "exp (927 / 8000 :: real) ^ 16 \<le> 1.1230 ^ 16"
    by (intro power_mono) simp_all
  moreover have "(1.1230 ::real) ^ 16 < 9.15 / 1.42905" by (simp add: power_divide)
  moreover have "exp (927 / 8000 :: real) ^ 16 = exp 1.854"
    by (simp flip: exp_of_nat_mult)
  ultimately show ?thesis by simp
qed

section \<open>Closed forms and reference values\<close>

lemma rint_eq:
  assumes "of_int n - 1 / 2 < y" and "y < of_int n + 1 / 2"
  shows "rint y = of_int n"
proof -
  have "n - 1 \<le> \<lfloor>y\<rfloor>" using assms(1) by linarith
  moreover have "\<lfloor>y\<rfloor> \<le> n" using assms(2) by linarith
  ultimately consider "\<lfloor>y\<rfloor> = n - 1" | "\<lfloor>y\<rfloor> = n" by linarith
  then show ?thesis
  proof cases
    case 1
    then have "1 / 2 < y - of_int \<lfloor>y\<rfloor>" using assms(1) by simp
    then show ?thesis using 1 by (simp add: rint_def Let_def)
  next
    case 2
    then have "y - of_int \<lfloor>y\<rfloor> < 1 / 2" using assms(2) by simp
    then show ?thesis using 2 by (simp add: rint_def Let_def)
  qed
qed

lemma fround1_eq:
  assumes "of_int n / 10 - 1 / 20 < x" and "x < of_int n / 10 + 1 / 20"
  shows "fround1 (Fin x) = Fin (of_int n / 10)"
proof -
  have "rint (x * 10) = of_int n"
    using assms by (intro rint_eq) simp_all
  then show ?thesis by simp
qed

lemma overflow_bound_bounds: "10 ^ 308 < overflow_bound" "overflow_bound < 10 ^ 309"
  by (simp_all add: overflow_bound_def)

lemma pow10_lt_bound:
  assumes "q \<le> 308"
  shows "10 powr q < overflow_bound"
proof -
  have "(10::real) powr q \<le> 10 powr 308" using assms by (intro powr_mono) simp_all
  also have "\<dots> = 10 ^ 308" by simp
  finally show ?thesis using overflow_bound_bounds(1) by linarith
qed

lemma pow10_ge_bound:
  assumes "309 \<le> q"
  shows "overflow_bound \<le> 10 powr q"
proof -
  have "(10::real) powr 309 \<le> 10 powr q" using assms by (intro powr_mono) simp_all
  moreover have "(10::real) powr 309 = 10 ^ 309" by simp
  ultimately show ?thesis using overflow_bound_bounds(2) by linarith
qed

lemma vp_exponent_above:
  assumes "- 235 < x"
  shows "8.10765 - 1750.286 / (235 + x) \<le> (308::real)"
proof -
  define z :: real where "z = 1750.286 / (235 + x)"
  have "0 < z" unfolding z_def using assms by simp
  then have "8.10765 - z \<le> 308" by simp
  then show ?thesis unfolding z_def .
qed

lemma vp_exponent_below:
  assumes "x \<le> - 241"
  shows "8.10765 - 1750.286 / (235 + x) \<le> (308::real)"
proof -
  define w :: real where "w = - (235 + x)"
  have w: "6 \<le> w" using assms by (simp add: w_def)
  have "1750.286 / w \<le> 1750.286 / 6" using w by (intro divide_left_mono) simp_all
  then have "8.10765 + 1750.286 / w \<le> 308" by simp
  moreover have "1750.286 / (235 + x) = - (1750.286 / w)"
  proof -
    have e: "235 + x = - w" by (simp add: w_def)
    show ?thesis unfolding e by (rule divide_minus_right)
  qed
  ultimately show ?thesis by simp
qed

lemma vp_exponent_overflow:
  assumes "- 240.8 \<le> x" and "x < - 235"
  shows "309 \<le> 8.10765 - 1750.286 / (235 + (x::real))"
proof -
  define w :: real where "w = - (235 + x)"
  have w: "0 < w" "w \<le> 5.8" using assms by (simp_all add: w_def)
  have "1750.286 / 5.8 \<le> 1750.286 / w" using w by (intro divide_left_mono) simp_all
  then have "309 \<le> 8.10765 + 1750.286 / w" by simp
  moreover have "1750.286 / (235 + x) = - (1750.286 / w)"
  proof -
    have e: "235 + x = - w" by (simp add: w_def)
    show ?thesis unfolding e by (rule divide_minus_right)
  qed
  ultimately show ?thesis by simp
qed

lemma vp_no_overflow:
  assumes "- 235 < x \<or> x \<le> - 241"
  shows "10 powr (8.10765 - 1750.286 / (235 + x)) < overflow_bound"
  using assms vp_exponent_above vp_exponent_below by (intro pow10_lt_bound) blast

lemma vp_finite:
  assumes "val t = Fin x" and "- 235 < x \<or> x \<le> - 241"
  shows "vapor_pressure_of_water t =
    Inr ((if is_np t then Np else Py) (Fin (10 powr (8.10765 - 1750.286 / (235 + x)))))"
proof -
  define q where "q = 8.10765 - 1750.286 / (235 + x)"
  have x: "235 + x \<noteq> 0" using assms(2) by auto
  have n: "\<not> overflow_bound \<le> 10 powr q"
    unfolding q_def using vp_no_overflow [OF assms(2)] by simp
  have d: "py_truediv (Py (Fin 1750.286)) (py_add (Py (Fin 235)) t) =
      Inr ((if is_np t then Np else Py) (Fin (1750.286 / (235 + x))))"
    using assms(1) x by (cases t) (simp_all add: py_truediv_def py_add_def)
  have "py_pow10 (py_sub (Py (Fin 8.10765)) ((if is_np t then Np else Py)
      (Fin (1750.286 / (235 + x))))) = Inr ((if is_np t then Np else Py) (Fin (10 powr q)))"
    using n by (simp add: py_pow10_def py_sub_def fsub_def q_def)
  then show ?thesis
    unfolding vapor_pressure_of_water_def d ebind_Inr q_def .
qed

lemma vp_Py_235: "vapor_pressure_of_water (Py (Fin (- 235))) = Inl ZeroDivisionError"
  by (simp add: vapor_pressure_of_water_def py_truediv_def py_add_def)

lemma vp_Np_235: "vapor_pressure_of_water (Np (Fin (- 235))) = Inr (Np (Fin 0))"
  by (simp add: vapor_pressure_of_water_def py_truediv_def py_add_def py_sub_def
      py_pow10_def fsub_def)

lemma vp_overflow:
  assumes "- 240.8 \<le> x" and "x < - 235"
  shows "vapor_pressure_of_water (Np (Fin x)) = Inr (Np PInf)"
    and "vapor_pressure_of_water (Py (Fin x)) = Inl OverflowError"
proof -
  define q where "q = 8.10765 - 1750.286 / (235 + x)"
  have x: "235 + x \<noteq> 0" using assms(2) by auto
  have o: "overflow_bound \<le> 10 powr q"
    unfolding q_def by (intro pow10_ge_bound vp_exponent_overflow assms)
  have "py_pow10 (py_sub (Py (Fin 8.10765)) (Np (Fin (1750.286 / (235 + x))))) = Inr (Np PInf)"
    using o by (simp add: py_pow10_def py_sub_def fsub_def q_def)
  then show "vapor_pressure_of_water (Np (Fin x)) = Inr (Np PInf)"
    using x by (simp add: vapor_pressure_of_water_def py_truediv_def py_add_def)
  have "py_pow10 (py_sub (Py (Fin 8.10765)) (Py (Fin (1750.286 / (235 + x))))) = Inl OverflowError"
    using o by (simp add: py_pow10_def py_sub_def fsub_def q_def)
  then show "vapor_pressure_of_water (Py (Fin x)) = Inl OverflowError"
    using x by (simp add: vapor_pressure_of_water_def py_truediv_def py_add_def)
qed

lemma pc_finite:
  assumes t: "val t = Fin x" "- 235 < x \<or> x \<le> - 241" and p: "val p = Fin y"
    and v: "10 powr (8.10765 - 1750.286 / (235 + x)) \<noteq> 760"
  shows "pressure_correction p t =
    Inr ((if is_np p \<or> is_np t then Np else Py)
      (Fin ((y - 10 powr (8.10765 - 1750.286 / (235 + x))) /
            (760 - 10 powr (8.10765 - 1750.286 / (235 + x))))))"
proof -
  define u where "u = 10 powr (8.10765 - 1750.286 / (235 + x))"
  have vp: "vapor_pressure_of_water t = Inr ((if is_np t then Np else Py) (Fin u))"
    unfolding u_def by (rule vp_finite [OF t])
  have "u \<noteq> 760" unfolding u_def by (rule v)
  then show ?thesis
    unfolding u_def [symmetric] using vp p
    by (cases p; cases t)
       (simp_all add: pressure_correction_def py_truediv_def py_sub_def fsub_def)
qed

lemma das_finite:
  assumes t: "val t = Fin x" "- 235 < x" and p: "val p = Fin y"
    and v: "10 powr (8.10765 - 1750.286 / (235 + x)) \<noteq> 760"
  shows "do_at_saturation t p =
    Inr (Np (Fin (1.42905 *
      exp (- 173.4292 + 249.6339 * (100 / (x + 273.15))
           + 143.3483 * ln ((x + 273.15) / 100) - 21.8493 * ((x + 273.15) / 100)) *
      ((y - 10 powr (8.10765 - 1750.286 / (235 + x))) /
       (760 - 10 powr (8.10765 - 1750.286 / (235 + x)))))))"
proof -
  define f where "f = (y - 10 powr (8.10765 - 1750.286 / (235 + x))) /
       (760 - 10 powr (8.10765 - 1750.286 / (235 + x)))"
  define k where "k = x + 273.15"
  have x: "- 235 < x \<or> x \<le> - 241" using t(2) by simp
  have k: "0 < k" using t(2) by (simp add: k_def)
  have pc: "pressure_correction p t = Inr ((if is_np p \<or> is_np t then Np else Py) (Fin f))"
    unfolding f_def by (rule pc_finite [OF t(1) x p v])
  have dk: "val (deg2kelvin t) = Fin k"
    using t(1) by (simp add: deg2kelvin_def ABSOLUTE_ZERO_def fsub_def k_def)
  have d1: "py_truediv (Py (Fin 100)) (deg2kelvin t) =
      Inr ((if is_np t then Np else Py) (Fin (100 / k)))"
    using dk k by (cases t) (simp_all add: py_truediv_def deg2kelvin_def ABSOLUTE_ZERO_def py_sub_def)
  have d2: "py_truediv (deg2kelvin t) (Py (Fin 100)) =
      Inr ((if is_np t then Np else Py) (Fin (k / 100)))"
    using dk k by (cases t) (simp_all add: py_truediv_def deg2kelvin_def ABSOLUTE_ZERO_def py_sub_def)
  show ?thesis
    unfolding f_def [symmetric] k_def [symmetric] do_at_saturation_def Let_def d1 d2 pc
    using k by (simp add: py_mul_def py_add_def py_sub_def np_exp_def np_log_def fsub_def)
qed

lemma vp_lt_100:
  assumes "- 235 < x" and "x \<le> 51"
  shows "10 powr (8.10765 - 1750.286 / (235 + x)) < (100::real)"
proof -
  have "6.10765 * (235 + x) < 1750.286" using assms by simp
  then have "6.10765 < 1750.286 / (235 + x)"
    using assms(1) by (simp add: pos_less_divide_eq)
  then have "8.10765 - 1750.286 / (235 + x) < 2" by simp
  then have "10 powr (8.10765 - 1750.286 / (235 + x)) < (10::real) powr 2"
    by (simp only: powr_less_cancel_iff)
  then show ?thesis by simp
qed

lemma vp0_lower: "(4.55::real) < 10 powr (8.10765 - 1750.286 / (235 + 0))"
  by (rule powr10_greater [where m = 27 and n = 41]) (simp_all add: power_divide)

lemma vp0_upper: "10 powr (8.10765 - 1750.286 / (235 + 0)) < (4.65::real)"
  by (rule powr10_less [where m = 2 and n = 3]) (simp_all add: power_divide)

lemma vp5_lower: "(6.45::real) < 10 powr (8.10765 - 1750.286 / (235 + 5))"
  by (rule powr10_greater [where m = 13 and n = 16]) (simp_all add: power_divide)

lemma vp5_upper: "10 powr (8.10765 - 1750.286 / (235 + 5)) < (6.55::real)"
  by (rule powr10_less [where m = 22 and n = 27]) (simp_all add: power_divide)

lemma vp50_lower: "(92.45::real) < 10 powr (8.10765 - 1750.286 / (235 + 50))"
  by (rule powr10_greater [where m = 116 and n = 59]) (simp_all add: power_divide)

lemma vp50_upper: "10 powr (8.10765 - 1750.286 / (235 + 50)) < (92.55::real)"
  by (rule powr10_less [where m = 409 and n = 208, OF _ _ _ pw50]) (simp_all add: power_divide)

lemma round_vp0:
  "ebind (vapor_pressure_of_water (Py (Fin 0))) (\<lambda>r. Inr (np_round1 r)) = Inr (Np (Fin 4.6))"
proof -
  have "fround1 (Fin (10 powr (8.10765 - 1750.286 / (235 + 0)))) = Fin (of_int 46 / 10)"
    using vp0_lower vp0_upper by (intro fround1_eq) simp_all
  then show ?thesis
    by (simp add: vp_finite [where x = 0] np_round1_def)
qed

lemma round_vp5:
  "ebind (vapor_pressure_of_water (Py (Fin 5))) (\<lambda>r. Inr (np_round1 r)) = Inr (Np (Fin 6.5))"
proof -
  have "fround1 (Fin (10 powr (8.10765 - 1750.286 / (235 + 5)))) = Fin (of_int 65 / 10)"
    using vp5_lower vp5_upper by (intro fround1_eq) simp_all
  then show ?thesis
    by (simp add: vp_finite [where x = 5] np_round1_def)
qed

lemma round_vp50:
  "ebind (vapor_pressure_of_water (Py (Fin 50))) (\<lambda>r. Inr (np_round1 r)) = Inr (Np (Fin 92.5))"
proof -
  have "fround1 (Fin (10 powr (8.10765 - 1750.286 / (235 + 50)))) = Fin (of_int 925 / 10)"
    using vp50_lower vp50_upper by (intro fround1_eq) simp_all
  then show ?thesis
    by (simp add: vp_finite [where x = 50] np_round1_def)
qed

lemma sat20_exponent:
  "1.846 < - 173.4292 + 249.6339 * (100 / (20 + 273.15))
      + 143.3483 * ln ((20 + 273.15) / 100) - 21.8493 * ((20 + 273.15) / (100::real))"
  "- 173.4292 + 249.6339 * (100 / (20 + 273.15))
      + 143.3483 * ln ((20 + 273.15) / 100) - 21.8493 * ((20 + 273.15) / (100::real)) < 1.854"
proof -
  have y: "(20 + 273.15) / 100 = (2.9315::real)" by simp
  show "1.846 < - 173.4292 + 249.6339 * (100 / (20 + 273.15))
      + 143.3483 * ln ((20 + 273.15) / 100) - 21.8493 * ((20 + 273.15) / (100::real))"
    unfolding y using ln_y_lower by simp
  show "- 173.4292 + 249.6339 * (100 / (20 + 273.15))
      + 143.3483 * ln ((20 + 273.15) / 100) - 21.8493 * ((20 + 273.15) / (100::real)) < 1.854"
    unfolding y using ln_y_upper by simp
qed

lemma sat20_bounds:
  fixes e :: real
  assumes "1.846 < e" and "e < 1.854"
  shows "9.05 < 1.42905 * exp e" and "1.42905 * exp e < 9.15"
proof -
  have "exp 1.846 < exp e" "exp e < exp 1.854" using assms by simp_all
  then have "9.05 / 1.42905 < exp e" "exp e < 9.15 / 1.42905"
    using exp_lo exp_hi by linarith+
  then show "9.05 < 1.42905 * exp e" and "1.42905 * exp e < 9.15"
    by (simp_all add: field_simps)
qed

lemma round_sat20:
  "ebind (do_at_saturation (Py (Fin 20)) (Py (Fin 760))) (\<lambda>r. Inr (np_round1 r)) =
   Inr (Np (Fin 9.1))"
proof -
  define e :: real where "e = - 173.4292 + 249.6339 * (100 / (20 + 273.15))
      + 143.3483 * ln ((20 + 273.15) / 100) - 21.8493 * ((20 + 273.15) / 100)"
  define u :: real where "u = 10 powr (8.10765 - 1750.286 / (235 + 20))"
  have u: "u \<noteq> 760" unfolding u_def using vp_lt_100 [of 20] by simp
  have "do_at_saturation (Py (Fin 20)) (Py (Fin 760)) =
      Inr (Np (Fin (1.42905 * exp e * ((760 - u) / (760 - u)))))"
    unfolding e_def u_def by (rule das_finite) (use u in \<open>simp_all add: u_def\<close>)
  then have d: "do_at_saturation (Py (Fin 20)) (Py (Fin 760)) = Inr (Np (Fin (1.42905 * exp e)))"
    using u by simp
  have "1.846 < e" "e < 1.854" unfolding e_def by (rule sat20_exponent)+
  then have "9.05 < 1.42905 * exp e" "1.42905 * exp e < 9.15"
    by (rule sat20_bounds)+
  then have "fround1 (Fin (1.42905 * exp e)) = Fin (of_int 91 / 10)"
    by (intro fround1_eq) simp_all
  then show ?thesis by (simp add: d np_round1_def)
qed

lemma das_sign:
  assumes t: "val t = Fin x" "- 235 < x" "x \<le> 51" and p: "val p = Fin y"
  shows "\<exists>m. do_at_saturation t p = Inr (Np (Fin m)) \<and>
    (100 \<le> y \<longrightarrow> 0 < m) \<and> (y \<le> 0 \<longrightarrow> m < 0)"
proof -
  define u :: real where "u = 10 powr (8.10765 - 1750.286 / (235 + x))"
  define e :: real where "e = - 173.4292 + 249.6339 * (100 / (x + 273.15))
           + 143.3483 * ln ((x + 273.15) / 100) - 21.8493 * ((x + 273.15) / 100)"
  have u: "0 < u" "u < 100" unfolding u_def using vp_lt_100 [OF t(2,3)] by simp_all
  then have u760: "u \<noteq> 760" by simp
  have d: "do_at_saturation t p = Inr (Np (Fin (1.42905 * exp e * ((y - u) / (760 - u)))))"
    unfolding u_def e_def by (rule das_finite [OF t(1,2) p]) (use u760 in \<open>simp add: u_def\<close>)
  have a: "0 < 1.42905 * exp e" by simp
  have "0 < 1.42905 * exp e * ((y - u) / (760 - u))" if "100 \<le> y"
    using that u by (intro mult_pos_pos a divide_pos_pos) simp_all
  moreover have "1.42905 * exp e * ((y - u) / (760 - u)) < 0" if "y \<le> 0"
    using that u by (intro mult_pos_neg a divide_neg_pos) simp_all
  ultimately have "(100 \<le> y \<longrightarrow> 0 < 1.42905 * exp e * ((y - u) / (760 - u))) \<and>
    (y \<le> 0 \<longrightarrow> 1.42905 * exp e * ((y - u) / (760 - u)) < 0)"
    by blast
  then show ?thesis using d by blast
qed

lemma das_20_760:
  "\<exists>m. do_at_saturation (Py (Fin 20)) (Py (Fin 760)) = Inr (Np (Fin m)) \<and> 0 < m"
  using das_sign [of "Py (Fin 20)" 20 "Py (Fin 760)" 760] by auto

lemma das_20_0:
  "\<exists>m. do_at_saturation (Py (Fin 20)) (Py (Fin 0)) = Inr (Np (Fin m)) \<and> m < 0"
  using das_sign [of "Py (Fin 20)" 20 "Py (Fin 0)" 0] by auto

section \<open>Facts for the error cases and the self-test\<close>

lemma pc_760:
  assumes "vapor_pressure_of_water t = Inr u" and "val u = Fin v" and "v \<noteq> 760"
    and "val p = Fin 760"
  shows "pressure_correction p t = Inr ((if is_np p \<or> is_np u then Np else Py) (Fin 1))"
  using assms
  by (cases p; cases u) (simp_all add: pressure_correction_def py_truediv_def py_sub_def fsub_def)

lemma vp_22: "\<exists>v. vapor_pressure_of_water (Py (Fin 22)) = Inr (Py (Fin v)) \<and> v < 100"
  using vp_finite [of "Py (Fin 22)" 22] vp_lt_100 [of 22] by simp

lemma fround1_one: "fround1 (Fin 1) = Fin 1"
  using fround1_eq [of 10 1] by simp

lemma vp_gt_1000:
  assumes "x < - 235"
  shows "1000 < (10::real) powr (8.10765 - 1750.286 / (235 + x))"
proof -
  define z :: real where "z = 1750.286 / (235 + x)"
  have "z < 0" unfolding z_def using assms by (simp add: divide_pos_neg)
  then have "3 < 8.10765 - z" by simp
  then have "(10::real) powr 3 < 10 powr (8.10765 - z)"
    by (simp only: powr_less_cancel_iff)
  then show ?thesis unfolding z_def by simp
qed

lemma das_below_absolute_zero:
  assumes t: "val t = Fin x" and x: "x < - 273.15"
  shows "do_at_saturation t p = Inr (Np NaN)"
proof -
  define u :: real where "u = 10 powr (8.10765 - 1750.286 / (235 + x))"
  define k :: real where "k = x + 273.15"
  have k: "k < 0" using x by (simp add: k_def)
  have x235: "- 235 < x \<or> x \<le> - 241" "x < - 235" using x by simp_all
  have vp: "vapor_pressure_of_water t = Inr ((if is_np t then Np else Py) (Fin u))"
    unfolding u_def by (rule vp_finite [OF t x235(1)])
  have u: "u \<noteq> 760" unfolding u_def using vp_gt_1000 [OF x235(2)] by simp
  have "val (py_sub (Py (Fin 760)) ((if is_np t then Np else Py) (Fin u))) \<noteq> Fin 0"
    using u by (simp add: fsub_def)
  then have "\<exists>f. pressure_correction p t = Inr f"
    by (simp add: pressure_correction_def vp py_truediv_def)
  then obtain f where pc: "pressure_correction p t = Inr f" by blast
  have dk: "val (deg2kelvin t) = Fin k"
    using t by (simp add: deg2kelvin_def ABSOLUTE_ZERO_def fsub_def k_def)
  have d1: "py_truediv (Py (Fin 100)) (deg2kelvin t) =
      Inr ((if is_np t then Np else Py) (Fin (100 / k)))"
    using dk k by (cases t) (simp_all add: py_truediv_def deg2kelvin_def ABSOLUTE_ZERO_def py_sub_def)
  have d2: "py_truediv (deg2kelvin t) (Py (Fin 100)) =
      Inr ((if is_np t then Np else Py) (Fin (k / 100)))"
    using dk k by (cases t) (simp_all add: py_truediv_def deg2kelvin_def ABSOLUTE_ZERO_def py_sub_def)
  show ?thesis
    unfolding do_at_saturation_def Let_def d1 d2 pc
    using k by (simp add: py_mul_def py_add_def py_sub_def np_exp_def np_log_def fsub_def)
qed

lemma das_Py_absolute_zero:
  "do_at_saturation (Py (Fin (- 273.15))) p = Inl ZeroDivisionError"
  by (simp add: do_at_saturation_def Let_def deg2kelvin_def ABSOLUTE_ZERO_def py_sub_def
      fsub_def py_truediv_def)

lemma das_Np_absolute_zero:
  "do_at_saturation (Np (Fin (- 273.15))) p = Inr (Np NaN)"
proof -
  have vp: "vapor_pressure_of_water (Np (Fin (- 273.15))) =
      Inr (Np (Fin (10 powr (8.10765 - 1750.286 / (235 + - 273.15)))))"
    using vp_finite [of "Np (Fin (- 273.15))" "- 273.15"] by simp
  have "\<exists>f. pressure_correction p (Np (Fin (- 273.15))) = Inr f"
    unfolding pressure_correction_def vp by (simp add: py_truediv_def)
  then obtain f where pc: "pressure_correction p (Np (Fin (- 273.15))) = Inr f" by blast
  show ?thesis
    unfolding do_at_saturation_def Let_def pc
    by (simp add: deg2kelvin_def ABSOLUTE_ZERO_def py_truediv_def py_mul_def py_add_def
        py_sub_def np_exp_def np_log_def fsub_def)
qed

lemma test_returns_single:
  assumes "ebind (func v) (\<lambda>r. Inr (np_round1 r)) = Inr w"
  shows "test_returns func [v] = Inr [w]"
  using assms by (cases "func v") simp_all

lemma pc_overflow:
  assumes "- 240.8 \<le> x" and "x < - 235"
  shows "pressure_correction p (Np (Fin x)) = Inr (Np NaN)"
    and "pressure_correction p (Py (Fin x)) = Inl OverflowError"
proof -
  have n: "fdiv (fadd a NInf) NInf = NaN" for a
    by (cases a) simp_all
  show "pressure_correction p (Np (Fin x)) = Inr (Np NaN)"
    unfolding pressure_correction_def vp_overflow(1) [OF assms]
    by (simp add: py_truediv_def py_sub_def fsub_def n)
  show "pressure_correction p (Py (Fin x)) = Inl OverflowError"
    unfolding pressure_correction_def vp_overflow(2) [OF assms] by simp
qed

section \<open>Facts about binary64 rounding\<close>

lemma rne_zero [simp]: "rne a 0 = a"
  by (simp add: rne_def)

lemma rne_error: "2 * \<bar>rne a k * 2 ^ k - a\<bar> \<le> 2 ^ k"
proof -
  define q where "q = a div 2 ^ k"
  define r where "r = a mod 2 ^ k"
  have a: "a = q * 2 ^ k + r" unfolding q_def r_def by (rule div_mult_mod_eq [symmetric])
  have r: "0 \<le> r" "r < 2 ^ k" by (simp_all add: r_def)
  have "rne a k = (if 2 * r < 2 ^ k then q else if 2 ^ k < 2 * r then q + 1
      else if even q then q else q + 1)"
    by (simp add: rne_def Let_def q_def r_def)
  then consider "rne a k = q" "2 * r \<le> 2 ^ k" | "rne a k = q + 1" "2 ^ k \<le> 2 * r"
    by (auto split: if_splits)
  then show ?thesis
  proof cases
    case 1
    then show ?thesis using r by (simp add: a)
  next
    case 2
    have "(q + 1) * 2 ^ k - a = 2 ^ k - r" by (simp add: a algebra_simps)
    then show ?thesis using 2 r by simp
  qed
qed

lemma bitlen_le_53: "\<bar>m\<bar> < 2 ^ 53 \<Longrightarrow> bitlen \<bar>m\<bar> \<le> 53"
  by (simp add: bitlen_le_iff_power)

lemma b64_round_exact:
  assumes "\<bar>m\<bar> < 2 ^ 53" and "- 1074 \<le> e" and "e \<le> 971"
  shows "b64_round m e = Dbl m e"
proof -
  have b: "bitlen \<bar>m\<bar> \<le> 53" using assms(1) by (rule bitlen_le_53)
  then have "max e (max (bitlen \<bar>m\<bar> + e - 53) (- 1074)) = e" using assms(2) by simp
  then show ?thesis using b assms(3) by (simp add: b64_round_def Let_def)
qed

lemma shift_val:
  assumes "E \<le> e"
  shows "real_of_int (m * 2 ^ nat (e - E)) * 2 powr of_int E = of_int m * 2 powr of_int e"
proof -
  have "(2::real) ^ nat (e - E) = 2 powr of_int (e - E)"
    using assms by (simp add: powr_realpow [symmetric])
  then have "real_of_int (m * 2 ^ nat (e - E)) * 2 powr of_int E =
      of_int m * (2 powr of_int (e - E) * 2 powr of_int E)"
    by simp
  also have "2 powr of_int (e - E) * 2 powr of_int E = (2::real) powr of_int e"
    by (simp add: powr_add [symmetric])
  finally show ?thesis .
qed

lemma deg2kelvin_b64_Dbl:
  "deg2kelvin_b64 (Dbl m e) =
     b64_round (m * 2 ^ nat (e - min e (- 44)) + 4805305618032230 * 2 ^ nat (- 44 - min e (- 44)))
       (min e (- 44))"
  by (simp add: deg2kelvin_b64_def b64_sub_def ABSOLUTE_ZERO_b64_def Let_def)

lemma kelvin2deg_b64_Dbl:
  "kelvin2deg_b64 (Dbl m e) =
     b64_round (m * 2 ^ nat (e - min e (- 44)) + - 4805305618032230 * 2 ^ nat (- 44 - min e (- 44)))
       (min e (- 44))"
  by (simp add: kelvin2deg_b64_def ABSOLUTE_ZERO_b64_def Let_def)

lemma grid_value:
  assumes "- 44 \<le> e"
  shows "real_of_int (m * 2 ^ nat (e + 44)) = b64_val (Dbl m e) * 2 ^ 44"
proof -
  define P :: real where "P = 2 powr of_int (- 44)"
  define n where "n = m * 2 ^ nat (e + 44)"
  have "real_of_int (m * 2 ^ nat (e - (- 44))) * 2 powr of_int (- 44) = of_int m * 2 powr of_int e"
    using assms by (intro shift_val) simp
  then have sv: "real_of_int n * P = b64_val (Dbl m e)"
    by (simp add: n_def P_def)
  have P: "P * 2 ^ 44 = 1"
    by (simp add: P_def powr_minus_divide powr_realpow [symmetric])
  have "real_of_int n = real_of_int n * (P * 2 ^ 44)" by (simp only: P mult_1_right)
  also have "\<dots> = (real_of_int n * P) * 2 ^ 44" by (simp only: mult.assoc)
  also have "\<dots> = b64_val (Dbl m e) * 2 ^ 44" by (simp only: sv)
  finally show ?thesis unfolding n_def .
qed

lemma round_trip_grid:
  assumes e: "- 44 \<le> e" and lo: "- 273 \<le> b64_val (Dbl m e)" and hi: "b64_val (Dbl m e) \<le> 238"
  shows "kelvin2deg_b64 (deg2kelvin_b64 (Dbl m e)) = Dbl (m * 2 ^ nat (e + 44)) (- 44)"
proof -
  define n where "n = m * 2 ^ nat (e + 44)"
  have n: "real_of_int n = b64_val (Dbl m e) * 2 ^ 44"
    unfolding n_def by (rule grid_value [OF e])
  have "real_of_int (- 273 * 2 ^ 44) \<le> real_of_int n"
    unfolding n using lo by simp
  then have nlo: "- 273 * 2 ^ 44 \<le> n" by (simp only: of_int_le_iff)
  have "real_of_int n \<le> real_of_int (238 * 2 ^ 44)"
    unfolding n using hi by simp
  then have nhi: "n \<le> 238 * 2 ^ 44" by (simp only: of_int_le_iff)
  have m: "min e (- 44) = - 44" using e by simp
  have "deg2kelvin_b64 (Dbl m e) = b64_round (n + 4805305618032230) (- 44)"
    unfolding deg2kelvin_b64_Dbl m n_def by simp
  also have "\<dots> = Dbl (n + 4805305618032230) (- 44)"
    using nlo nhi by (intro b64_round_exact) simp_all
  finally have k: "deg2kelvin_b64 (Dbl m e) = Dbl (n + 4805305618032230) (- 44)" .
  have "kelvin2deg_b64 (Dbl (n + 4805305618032230) (- 44)) = b64_round n (- 44)"
    unfolding kelvin2deg_b64_Dbl by simp
  also have "\<dots> = Dbl n (- 44)"
    using nlo nhi by (intro b64_round_exact) simp_all
  finally show ?thesis unfolding k n_def .
qed

lemma round_trip_grid_eq:
  assumes e: "- 44 \<le> e" and lo: "- 273 \<le> b64_val (Dbl m e)" and hi: "b64_val (Dbl m e) \<le> 238"
  shows "b64_eq (kelvin2deg_b64 (deg2kelvin_b64 (Dbl m e))) (Dbl m e)"
  using e by (simp add: round_trip_grid [OF assms] Let_def)

lemma p45: "(2::real) powr of_int (- 45) * 2 ^ 45 = 1"
  by (simp add: powr_minus_divide powr_realpow [symmetric])

lemma int_bound:
  assumes u: "- 45 \<le> u" and b: "\<bar>real_of_int z\<bar> * 2 powr of_int u < real_of_int c"
  shows "\<bar>z\<bar> < c * 2 ^ 45"
proof -
  have "(2::real) powr of_int (- 45) \<le> 2 powr of_int u"
    using u by (intro powr_mono) simp_all
  then have "\<bar>real_of_int z\<bar> * 2 powr of_int (- 45) \<le> \<bar>real_of_int z\<bar> * 2 powr of_int u"
    by (intro mult_left_mono) simp_all
  then have "\<bar>real_of_int z\<bar> * 2 powr of_int (- 45) < real_of_int c"
    using b by linarith
  then have "\<bar>real_of_int z\<bar> * 2 powr of_int (- 45) * 2 ^ 45 < real_of_int c * 2 ^ 45"
    by (intro mult_strict_right_mono) simp_all
  then have "\<bar>real_of_int z\<bar> * (2 powr of_int (- 45) * 2 ^ 45) < real_of_int c * 2 ^ 45"
    by (simp only: mult.assoc)
  then have "real_of_int \<bar>z\<bar> < real_of_int (c * 2 ^ 45)"
    by (simp only: p45 mult_1_right) simp
  then show ?thesis by (simp only: of_int_less_iff)
qed

lemma absolute_zero_value:
  "273.1 < real_of_int 4805305618032230 * 2 powr of_int (- 44)"
  "real_of_int 4805305618032230 * 2 powr of_int (- 44) < 273.15"
  by (simp_all add: powr_minus_divide powr_realpow [symmetric])

lemma bitlen_real_bounds:
  assumes "0 < M"
  shows "2 powr of_int (bitlen M - 1 + E) \<le> real_of_int M * 2 powr of_int E"
    and "real_of_int M * 2 powr of_int E < 2 powr of_int (bitlen M + E)"
proof -
  have n: "1 \<le> bitlen M" using assms by (simp add: bitlen_ge_iff_power)
  have b: "2 ^ nat (bitlen M - 1) \<le> M" "M < 2 ^ nat (bitlen M)"
    using bitlen_bounds [OF assms] by simp_all
  have "(2::real) powr of_int (bitlen M - 1) = 2 ^ nat (bitlen M - 1)"
    using n by (simp add: powr_realpow [symmetric])
  also have "\<dots> = real_of_int (2 ^ nat (bitlen M - 1))" by simp
  also have "\<dots> \<le> real_of_int M" using b(1) by (simp only: of_int_le_iff)
  finally have "2 powr of_int (bitlen M - 1) * 2 powr of_int E \<le> real_of_int M * 2 powr of_int E"
    by (intro mult_right_mono) simp_all
  then show "2 powr of_int (bitlen M - 1 + E) \<le> real_of_int M * 2 powr of_int E"
    by (simp add: powr_add)
  have "real_of_int M < real_of_int (2 ^ nat (bitlen M))" using b(2) by (simp only: of_int_less_iff)
  also have "\<dots> = 2 ^ nat (bitlen M)" by simp
  also have "\<dots> = (2::real) powr of_int (bitlen M)"
    using n by (simp add: powr_realpow [symmetric])
  finally have "real_of_int M * 2 powr of_int E < 2 powr of_int (bitlen M) * 2 powr of_int E"
    by (intro mult_strict_right_mono) simp_all
  then show "real_of_int M * 2 powr of_int E < 2 powr of_int (bitlen M + E)"
    by (simp add: powr_add)
qed

lemma rne_real_error:
  assumes "E \<le> u"
  shows "\<bar>real_of_int (rne M (nat (u - E))) * 2 powr of_int u - real_of_int M * 2 powr of_int E\<bar>
    \<le> 2 powr of_int u / 2"
proof -
  define k where "k = nat (u - E)"
  define q where "q = rne M k"
  have pk: "(2::real) powr of_int u = 2 ^ k * 2 powr of_int E"
    using shift_val [OF assms, of 1] by (simp add: k_def)
  have "2 * \<bar>q * 2 ^ k - M\<bar> \<le> 2 ^ k" unfolding q_def by (rule rne_error)
  then have "real_of_int (2 * \<bar>q * 2 ^ k - M\<bar>) \<le> real_of_int (2 ^ k)"
    by (simp only: of_int_le_iff)
  then have i: "\<bar>real_of_int q * 2 ^ k - real_of_int M\<bar> \<le> 2 ^ k / 2" by simp
  have "real_of_int q * 2 powr of_int u - real_of_int M * 2 powr of_int E =
      (real_of_int q * 2 ^ k - real_of_int M) * 2 powr of_int E"
    by (simp add: pk algebra_simps)
  then have "\<bar>real_of_int q * 2 powr of_int u - real_of_int M * 2 powr of_int E\<bar> =
      \<bar>real_of_int q * 2 ^ k - real_of_int M\<bar> * 2 powr of_int E"
    by (simp add: abs_mult)
  also have "\<dots> \<le> 2 ^ k / 2 * 2 powr of_int E"
    using i by (intro mult_right_mono) simp_all
  also have "\<dots> = 2 powr of_int u / 2" by (simp add: pk)
  finally show ?thesis unfolding q_def k_def .
qed

lemma round_trip_error:
  assumes lo: "- 145 \<le> b64_val (Dbl m e)" and hi: "b64_val (Dbl m e) \<le> 238"
  shows "\<exists>q u. kelvin2deg_b64 (deg2kelvin_b64 (Dbl m e)) = Dbl q u \<and>
    \<bar>b64_val (Dbl q u) - b64_val (Dbl m e)\<bar> \<le> 2 powr (- 45)"
proof -
  define x where "x = b64_val (Dbl m e)"
  define a :: real where "a = real_of_int 4805305618032230 * 2 powr of_int (- 44)"
  define E where "E = min e (- 44)"
  define M where "M = m * 2 ^ nat (e - E) + 4805305618032230 * 2 ^ nat (- 44 - E)"
  define s where "s = real_of_int M * 2 powr of_int E"
  have a: "273.1 < a" "a < 273.15" unfolding a_def by (rule absolute_zero_value)+
  have E: "E \<le> e" "E \<le> - 44" by (simp_all add: E_def)
  have s1: "real_of_int (m * 2 ^ nat (e - E)) * 2 powr of_int E = x"
    unfolding x_def b64_val.simps by (rule shift_val [OF E(1)])
  have s2: "real_of_int (4805305618032230 * 2 ^ nat (- 44 - E)) * 2 powr of_int E = a"
    unfolding a_def by (rule shift_val [OF E(2)])
  have "s = real_of_int (m * 2 ^ nat (e - E)) * 2 powr of_int E +
      real_of_int (4805305618032230 * 2 ^ nat (- 44 - E)) * 2 powr of_int E"
    unfolding s_def M_def by (simp only: of_int_add distrib_right)
  then have s: "s = x + a" by (simp only: s1 s2)
  have sb: "128 \<le> s" "s < 512" using lo hi a by (simp_all add: s x_def)
  have "0 < real_of_int M * 2 powr of_int E" using sb(1) by (simp add: s_def)
  then have Mpos: "0 < M" by (simp add: zero_less_mult_iff)
  define n where "n = bitlen M"
  have nb: "2 powr of_int (n - 1 + E) \<le> s" "s < 2 powr of_int (n + E)"
    unfolding n_def s_def by (rule bitlen_real_bounds [OF Mpos])+
  have "(2::real) powr of_int (n - 1 + E) < 2 powr 9" using nb(1) sb(2) by simp
  then have "real_of_int (n - 1 + E) < 9" by (simp only: powr_less_cancel_iff) 
  then have n9: "n + E \<le> 9" by linarith
  have "(2::real) powr 7 < 2 powr of_int (n + E)" using nb(2) sb(1) by simp
  then have "7 < real_of_int (n + E)" by (simp only: powr_less_cancel_iff)
  then have n8: "8 \<le> n + E" by linarith
  define u where "u = max E (max (n + E - 53) (- 1074))"
  have u: "E \<le> u" "- 45 \<le> u" "u \<le> - 44" using n8 n9 E(2) by (simp_all add: u_def)
  define q where "q = rne M (nat (u - E))"
  define Kv where "Kv = real_of_int q * 2 powr of_int u"
  have "\<bar>Kv - s\<bar> \<le> 2 powr of_int u / 2"
    unfolding Kv_def q_def s_def by (rule rne_real_error [OF u(1)])
  also have "\<dots> \<le> 2 powr of_int (- 44) / 2" using u(3) by (intro divide_right_mono powr_mono) simp_all
  also have "\<dots> = 2 powr (- 45)" by (simp add: powr_minus_divide powr_realpow [symmetric])
  finally have err: "\<bar>Kv - s\<bar> \<le> 2 powr (- 45)" .
  have small: "(2::real) powr (- 45) < 1" by (simp add: powr_minus_divide)
  have "\<bar>Kv\<bar> < 513" using err small sb by linarith
  then have "\<bar>real_of_int q\<bar> * 2 powr of_int u < real_of_int 513"
    by (simp add: Kv_def abs_mult)
  then have "\<bar>q\<bar> < 513 * 2 ^ 45" using u(2) by (intro int_bound)
  then have "\<bar>q\<bar> < 2 ^ nat 55" by simp
  then have "bitlen \<bar>q\<bar> \<le> 55" by (simp only: bitlen_le_iff_power) simp
  then have nov: "\<not> 1024 < bitlen \<bar>q\<bar> + u" using u(3) by simp
  have k: "deg2kelvin_b64 (Dbl m e) = Dbl q u"
    unfolding deg2kelvin_b64_Dbl E_def [symmetric] M_def [symmetric]
    using Mpos nov by (simp add: b64_round_def Let_def n_def [symmetric] u_def [symmetric] q_def [symmetric])
  define M2 where "M2 = q + - 4805305618032230 * 2 ^ nat (- 44 - u)"
  have mu: "min u (- 44) = u" using u(3) by simp
  have "real_of_int (- 4805305618032230 * 2 ^ nat (- 44 - u)) * 2 powr of_int u =
      real_of_int (- 4805305618032230) * 2 powr of_int (- 44)"
    by (rule shift_val [OF u(3)])
  then have s3: "real_of_int (- 4805305618032230 * 2 ^ nat (- 44 - u)) * 2 powr of_int u = - a"
    by (simp add: a_def)
  have "real_of_int M2 * 2 powr of_int u = real_of_int q * 2 powr of_int u +
      real_of_int (- 4805305618032230 * 2 ^ nat (- 44 - u)) * 2 powr of_int u"
    unfolding M2_def by (simp only: of_int_add distrib_right)
  then have v2: "real_of_int M2 * 2 powr of_int u = Kv - a"
    by (simp only: s3 Kv_def)
  have "\<bar>Kv - a\<bar> < 239" using err small lo hi by (simp add: s x_def)
  then have "\<bar>real_of_int M2\<bar> * 2 powr of_int u < real_of_int 239"
    by (simp add: v2 [symmetric] abs_mult)
  then have "\<bar>M2\<bar> < 239 * 2 ^ 45" using u(2) by (intro int_bound)
  then have M2b: "\<bar>M2\<bar> < 2 ^ 53" by simp
  have "kelvin2deg_b64 (Dbl q u) = b64_round M2 u"
    unfolding kelvin2deg_b64_Dbl mu M2_def by simp
  also have "\<dots> = Dbl M2 u" using M2b u by (intro b64_round_exact) simp_all
  finally have r: "kelvin2deg_b64 (deg2kelvin_b64 (Dbl m e)) = Dbl M2 u" unfolding k .
  have "\<bar>b64_val (Dbl M2 u) - b64_val (Dbl m e)\<bar> = \<bar>Kv - s\<bar>"
    using v2 by (simp add: s x_def)
  then show ?thesis using r err by auto
qed

lemma absolute_zero_nearest:
  "\<bar>real_of_int 4805305618032230 * 2 powr of_int (- 44) - 273.15\<bar> < 2 powr (- 45) \<and>
   (2::int) ^ 52 \<le> 4805305618032230 \<and> (4805305618032230::int) < 2 ^ 53"
  by (simp add: powr_minus_divide powr_realpow [symmetric])

lemma tenth_nearest:
  "\<bar>real_of_int 7205759403792794 * 2 powr of_int (- 56) - 0.1\<bar> < 2 powr (- 57) \<and>
   (2::int) ^ 52 \<le> 7205759403792794 \<and> (7205759403792794::int) < 2 ^ 53"
  by (simp add: powr_minus_divide powr_realpow [symmetric])

lemma round_trip_exact_arithmetic:
  assumes "val t = Fin x"
  shows "val (kelvin2deg (deg2kelvin t)) = Fin x"
  using assms by (simp add: kelvin2deg_def deg2kelvin_def ABSOLUTE_ZERO_def fsub_def)

section \<open>Facts about binary64 division and multiplication\<close>

lemma rint_floor_cases: "rint y = of_int \<lfloor>y\<rfloor> \<or> rint y = of_int (\<lfloor>y\<rfloor> + 1)"
  by (simp add: rint_def Let_def)

lemma rint_of_int [simp]: "rint (of_int n) = of_int n"
  by (rule rint_eq) simp_all

lemma rint_mono:
  assumes "a \<le> b"
  shows "rint a \<le> rint b"
proof (cases "\<lfloor>a\<rfloor> = \<lfloor>b\<rfloor>")
  case True
  have d: "a - of_int \<lfloor>a\<rfloor> \<le> b - of_int \<lfloor>b\<rfloor>" using assms True by simp
  show ?thesis
    using d True by (auto simp: rint_def Let_def)
next
  case False
  then have "\<lfloor>a\<rfloor> + 1 \<le> \<lfloor>b\<rfloor>" using assms floor_mono [of a b] by linarith
  then have "real_of_int (\<lfloor>a\<rfloor> + 1) \<le> real_of_int \<lfloor>b\<rfloor>" by (simp only: of_int_le_iff)
  moreover have "rint a \<le> of_int (\<lfloor>a\<rfloor> + 1)" using rint_floor_cases [of a] by auto
  moreover have "of_int \<lfloor>b\<rfloor> \<le> rint b" using rint_floor_cases [of b] by auto
  ultimately show ?thesis by linarith
qed

lemma rne_frac_rint:
  assumes "0 < b"
  shows "real_of_int (rne_frac a b) = rint (of_int a / of_int b)"
proof -
  define q where "q = a div b"
  define r where "r = a mod b"
  define fr where "fr = real_of_int a / real_of_int b - of_int q"
  have a: "a = q * b + r" unfolding q_def r_def by (rule div_mult_mod_eq [symmetric])
  have f: "\<lfloor>real_of_int a / real_of_int b\<rfloor> = q"
    unfolding q_def by (rule floor_divide_of_int_eq)
  have "real_of_int a / real_of_int b = real_of_int q + real_of_int r / real_of_int b"
    using assms by (simp add: a field_simps)
  then have d: "fr = real_of_int r / real_of_int b"
    by (simp add: fr_def)
  have h: "fr - 1 / 2 = real_of_int (2 * r - b) / (2 * real_of_int b)"
    using assms by (simp add: d field_simps)
  have pos: "0 < 2 * real_of_int b" using assms by simp
  have lt: "fr < 1 / 2 \<longleftrightarrow> 2 * r < b"
  proof -
    have "fr < 1 / 2 \<longleftrightarrow> real_of_int (2 * r - b) / (2 * real_of_int b) < 0"
      using h by linarith
    also have "\<dots> \<longleftrightarrow> real_of_int (2 * r - b) < 0"
      using pos by (simp only: divide_less_0_iff) auto
    also have "\<dots> \<longleftrightarrow> 2 * r - b < 0" by (rule of_int_less_0_iff)
    also have "\<dots> \<longleftrightarrow> 2 * r < b" by linarith
    finally show ?thesis .
  qed
  have gt: "1 / 2 < fr \<longleftrightarrow> b < 2 * r"
  proof -
    have "1 / 2 < fr \<longleftrightarrow> 0 < real_of_int (2 * r - b) / (2 * real_of_int b)"
      using h by linarith
    also have "\<dots> \<longleftrightarrow> 0 < real_of_int (2 * r - b)"
      using pos by (simp only: zero_less_divide_iff) auto
    also have "\<dots> \<longleftrightarrow> 0 < 2 * r - b" by (rule of_int_0_less_iff)
    also have "\<dots> \<longleftrightarrow> b < 2 * r" by linarith
    finally show ?thesis .
  qed
  have R: "rint (of_int a / of_int b) =
      (if fr < 1 / 2 then of_int q else if 1 / 2 < fr then of_int (q + 1)
       else if even q then of_int q else of_int (q + 1))"
    unfolding rint_def Let_def f fr_def ..
  have N: "rne_frac a b =
      (if 2 * r < b then q else if b < 2 * r then q + 1 else if even q then q else q + 1)"
    unfolding rne_frac_def Let_def q_def r_def ..
  show ?thesis unfolding R N lt gt by simp
qed

lemma powr_int_nonneg:
  assumes "0 \<le> k"
  shows "(2::real) powr of_int k = real_of_int (2 ^ nat k)"
  using assms by (simp add: powr_realpow [symmetric])

lemma rint_grid_fix:
  assumes "u \<le> k"
  shows "rint (2 powr of_int k / 2 powr of_int u) * 2 powr of_int u = 2 powr of_int k"
proof -
  have "(2::real) powr of_int k / 2 powr of_int u = 2 powr of_int (k - u)"
    by (simp add: powr_diff)
  also have "\<dots> = real_of_int (2 ^ nat (k - u))"
    using assms by (intro powr_int_nonneg) simp
  finally have e: "(2::real) powr of_int k / 2 powr of_int u = real_of_int (2 ^ nat (k - u))" .
  have "rint (2 powr of_int k / 2 powr of_int u) = 2 powr of_int k / 2 powr of_int u"
    unfolding e by (rule rint_of_int)
  then show ?thesis by simp
qed

lemma grid_mono:
  assumes "x \<le> y"
  shows "rint (x / 2 powr of_int u) * 2 powr of_int u \<le> rint (y / 2 powr of_int u) * 2 powr of_int u"
proof -
  have "x / 2 powr of_int u \<le> y / 2 powr of_int u"
    using assms by (intro divide_right_mono) simp_all
  then have "rint (x / 2 powr of_int u) \<le> rint (y / 2 powr of_int u)" by (rule rint_mono)
  then show ?thesis by (intro mult_right_mono) simp_all
qed

lemma grid_round_mono:
  fixes x y :: real and Bx By :: int
  assumes xy: "x \<le> y"
    and bx: "2 powr of_int (Bx - 1) \<le> x" "x < 2 powr of_int Bx"
    and "by": "2 powr of_int (By - 1) \<le> y" "y < 2 powr of_int By"
  shows "rint (x / 2 powr of_int (max (Bx - 53) (- 1074))) * 2 powr of_int (max (Bx - 53) (- 1074))
    \<le> rint (y / 2 powr of_int (max (By - 53) (- 1074))) * 2 powr of_int (max (By - 53) (- 1074))"
proof -
  define ux where "ux = max (Bx - 53) (- 1074)"
  define uy where "uy = max (By - 53) (- 1074)"
  have "(2::real) powr of_int (Bx - 1) < 2 powr of_int By"
    using bx(1) xy "by"(2) by linarith
  then have "real_of_int (Bx - 1) < real_of_int By" by (simp only: powr_less_cancel_iff)
  then have B: "Bx \<le> By" by linarith
  show ?thesis
  proof (cases "ux = uy")
    case True
    show ?thesis
      unfolding ux_def [symmetric] uy_def [symmetric] True by (rule grid_mono [OF xy])
  next
    case False
    then have lt: "ux < uy" using B unfolding ux_def uy_def by linarith
    then have uy: "uy = By - 53" and Blt: "Bx \<le> By - 1"
      unfolding ux_def uy_def by linarith+
    define b :: real where "b = 2 powr of_int (By - 1)"
    have "(2::real) powr of_int Bx \<le> 2 powr of_int (By - 1)"
      using Blt by (intro powr_mono) simp_all
    then have xb: "x \<le> b" using bx(2) unfolding b_def by linarith
    have yb: "b \<le> y" using "by"(1) unfolding b_def .
    have "ux \<le> By - 1" using lt uy by simp
    then have fx: "rint (b / 2 powr of_int ux) * 2 powr of_int ux = b"
      unfolding b_def by (rule rint_grid_fix)
    have "uy \<le> By - 1" using uy by simp
    then have fy: "rint (b / 2 powr of_int uy) * 2 powr of_int uy = b"
      unfolding b_def by (rule rint_grid_fix)
    have "rint (x / 2 powr of_int ux) * 2 powr of_int ux \<le> b"
      using grid_mono [OF xb, of ux] fx by simp
    moreover have "b \<le> rint (y / 2 powr of_int uy) * 2 powr of_int uy"
      using grid_mono [OF yb, of uy] fy by simp
    ultimately show ?thesis unfolding ux_def uy_def by linarith
  qed
qed

lemma bitlen_real:
  assumes "0 < M"
  shows "2 powr of_int (bitlen M - 1) \<le> real_of_int M" and "real_of_int M < 2 powr of_int (bitlen M)"
  using bitlen_real_bounds [OF assms, of 0] by simp_all

lemma pow2_ratio:
  "real_of_int (2 ^ nat k) / real_of_int (2 ^ nat (- k)) = 2 powr of_int k"
proof (cases "0 \<le> k")
  case True
  then show ?thesis by (simp add: powr_realpow [symmetric])
next
  case False
  then have "(2::real) powr of_int (- k) = real_of_int (2 ^ nat (- k))"
    by (intro powr_int_nonneg) simp
  moreover have "(2::real) powr of_int k = 1 / 2 powr of_int (- k)"
    by (simp add: powr_minus_divide)
  ultimately show ?thesis using False by simp
qed

lemma frac_bits:
  assumes p: "0 < p" and d: "0 < d"
  defines "n \<equiv> bitlen p - bitlen d"
  defines "B \<equiv> (if d * 2 ^ nat n \<le> p * 2 ^ nat (- n) then n + 1 else n)"
  shows "2 powr of_int (B - 1) \<le> real_of_int p / real_of_int d"
    and "real_of_int p / real_of_int d < 2 powr of_int B"
proof -
  define r where "r = real_of_int p / real_of_int d"
  have dp: "0 < real_of_int d" using d by simp
  have lo: "2 powr of_int (n - 1) \<le> r"
  proof -
    have "2 powr of_int (n - 1) * real_of_int d \<le> 2 powr of_int (n - 1) * 2 powr of_int (bitlen d)"
      using bitlen_real(2) [OF d] by (intro mult_left_mono) simp_all
    also have "\<dots> = 2 powr of_int (bitlen p - 1)"
      by (simp add: powr_add [symmetric] n_def)
    also have "\<dots> \<le> real_of_int p" by (rule bitlen_real(1) [OF p])
    finally show ?thesis using dp by (simp add: r_def pos_le_divide_eq)
  qed
  have hi: "r < 2 powr of_int (n + 1)"
  proof -
    have "real_of_int p < 2 powr of_int (bitlen p)" by (rule bitlen_real(2) [OF p])
    also have "\<dots> = 2 powr of_int (n + 1) * 2 powr of_int (bitlen d - 1)"
      by (simp add: powr_add [symmetric] n_def)
    also have "\<dots> \<le> 2 powr of_int (n + 1) * real_of_int d"
      using bitlen_real(1) [OF d] by (intro mult_left_mono) simp_all
    finally show ?thesis using dp by (simp add: r_def pos_divide_less_eq)
  qed
  have c: "d * 2 ^ nat n \<le> p * 2 ^ nat (- n) \<longleftrightarrow> 2 powr of_int n \<le> r"
  proof -
    have pos: "0 < real_of_int (2 ^ nat (- n))" by simp
    have "d * 2 ^ nat n \<le> p * 2 ^ nat (- n) \<longleftrightarrow>
        real_of_int (d * 2 ^ nat n) \<le> real_of_int (p * 2 ^ nat (- n))"
      by (simp only: of_int_le_iff)
    also have "\<dots> \<longleftrightarrow> real_of_int d * real_of_int (2 ^ nat n) \<le> real_of_int p * real_of_int (2 ^ nat (- n))"
      by (simp only: of_int_mult)
    also have "\<dots> \<longleftrightarrow> real_of_int (2 ^ nat n) / real_of_int (2 ^ nat (- n)) \<le> real_of_int p / real_of_int d"
      using dp pos by (simp add: field_simps)
    also have "\<dots> \<longleftrightarrow> 2 powr of_int n \<le> r"
      by (simp only: pow2_ratio r_def)
    finally show ?thesis .
  qed
  show "2 powr of_int (B - 1) \<le> real_of_int p / real_of_int d"
    using lo c unfolding B_def r_def by (auto split: if_splits)
  show "real_of_int p / real_of_int d < 2 powr of_int B"
    using hi c unfolding B_def r_def by (auto split: if_splits simp: not_le)
qed

lemma b64_round_frac_pos:
  assumes p: "0 < p" and d: "0 < d"
  shows "\<exists>B q. 2 powr of_int (B - 1) \<le> real_of_int p / real_of_int d * 2 powr of_int e \<and>
    real_of_int p / real_of_int d * 2 powr of_int e < 2 powr of_int B \<and>
    real_of_int q * 2 powr of_int (max (B - 53) (- 1074)) =
      rint (real_of_int p / real_of_int d * 2 powr of_int e / 2 powr of_int (max (B - 53) (- 1074))) *
        2 powr of_int (max (B - 53) (- 1074)) \<and>
    b64_round_frac p d e =
      (if 1024 < bitlen \<bar>q\<bar> + max (B - 53) (- 1074) then DPInf
       else Dbl q (max (B - 53) (- 1074)))"
proof -
  define r where "r = real_of_int p / real_of_int d"
  define n where "n = bitlen p - bitlen d"
  define B0 where "B0 = (if d * 2 ^ nat n \<le> p * 2 ^ nat (- n) then n + 1 else n)"
  define B where "B = B0 + e"
  define ue where "ue = max (B - 53) (- 1074)"
  define q where "q = rne_frac (p * 2 ^ nat (e - ue)) (d * 2 ^ nat (ue - e))"
  have fb: "2 powr of_int (B0 - 1) \<le> r" "r < 2 powr of_int B0"
    unfolding B0_def n_def r_def by (rule frac_bits [OF p d])+
  have "2 powr of_int (B0 - 1) * 2 powr of_int e \<le> r * 2 powr of_int e"
    using fb(1) by (intro mult_right_mono) simp_all
  then have lo: "2 powr of_int (B - 1) \<le> r * 2 powr of_int e"
    by (simp add: B_def powr_add [symmetric] algebra_simps)
  have "r * 2 powr of_int e < 2 powr of_int B0 * 2 powr of_int e"
    using fb(2) by (intro mult_strict_right_mono) simp_all
  then have hi: "r * 2 powr of_int e < 2 powr of_int B"
    by (simp add: B_def powr_add [symmetric])
  have dpos: "0 < d * 2 ^ nat (ue - e)" using d by simp
  have "real_of_int (p * 2 ^ nat (e - ue)) / real_of_int (d * 2 ^ nat (ue - e)) =
      r * (real_of_int (2 ^ nat (e - ue)) / real_of_int (2 ^ nat (- (e - ue))))"
    by (simp add: r_def)
  also have "\<dots> = r * 2 powr of_int (e - ue)" by (simp only: pow2_ratio)
  also have "\<dots> = r * 2 powr of_int e / 2 powr of_int ue" by (simp add: powr_diff)
  finally have ratio: "real_of_int (p * 2 ^ nat (e - ue)) / real_of_int (d * 2 ^ nat (ue - e)) =
      r * 2 powr of_int e / 2 powr of_int ue" .
  have qv: "real_of_int q = rint (r * 2 powr of_int e / 2 powr of_int ue)"
    unfolding q_def rne_frac_rint [OF dpos] ratio ..
  have def: "b64_round_frac p d e = (if 1024 < bitlen \<bar>q\<bar> + ue then DPInf else Dbl q ue)"
    using p by (simp add: b64_round_frac_def Let_def n_def [symmetric] B0_def [symmetric]
        B_def [symmetric] ue_def [symmetric] q_def [symmetric])
  have qv': "real_of_int q * 2 powr of_int ue =
      rint (r * 2 powr of_int e / 2 powr of_int ue) * 2 powr of_int ue"
    by (simp only: qv)
  show ?thesis
    using lo hi qv' def unfolding r_def ue_def by blast
qed

lemma overflow_iff:
  assumes "0 < q"
  shows "1024 < bitlen q + u \<longleftrightarrow> 2 powr 1024 \<le> real_of_int q * 2 powr of_int u"
proof
  assume "1024 < bitlen q + u"
  then have "(2::real) powr 1024 \<le> 2 powr of_int (bitlen q - 1 + u)"
    by (intro powr_mono) simp_all
  also have "\<dots> \<le> real_of_int q * 2 powr of_int u"
    by (rule bitlen_real_bounds(1) [OF assms])
  finally show "2 powr 1024 \<le> real_of_int q * 2 powr of_int u" .
next
  assume "2 powr 1024 \<le> real_of_int q * 2 powr of_int u"
  also have "real_of_int q * 2 powr of_int u < 2 powr of_int (bitlen q + u)"
    by (rule bitlen_real_bounds(2) [OF assms])
  finally have "(2::real) powr 1024 < 2 powr of_int (bitlen q + u)" .
  then have "1024 < real_of_int (bitlen q + u)" by (simp only: powr_less_cancel_iff)
  then show "1024 < bitlen q + u" by linarith
qed

lemma b64_le_Dbl:
  "b64_le (Dbl m1 e1) (Dbl m2 e2) \<longleftrightarrow>
     real_of_int m1 * 2 powr of_int e1 \<le> real_of_int m2 * 2 powr of_int e2"
proof -
  define e where "e = min e1 e2"
  have e: "e \<le> e1" "e \<le> e2" by (simp_all add: e_def)
  have pos: "0 < (2::real) powr of_int e" by simp
  have "b64_le (Dbl m1 e1) (Dbl m2 e2) \<longleftrightarrow> m1 * 2 ^ nat (e1 - e) \<le> m2 * 2 ^ nat (e2 - e)"
    by (simp add: Let_def e_def)
  also have "\<dots> \<longleftrightarrow> real_of_int (m1 * 2 ^ nat (e1 - e)) \<le> real_of_int (m2 * 2 ^ nat (e2 - e))"
    by (simp only: of_int_le_iff)
  also have "\<dots> \<longleftrightarrow> real_of_int (m1 * 2 ^ nat (e1 - e)) * 2 powr of_int e \<le>
      real_of_int (m2 * 2 ^ nat (e2 - e)) * 2 powr of_int e"
    using pos by (simp only: mult_le_cancel_right_pos)
  also have "\<dots> \<longleftrightarrow> real_of_int m1 * 2 powr of_int e1 \<le> real_of_int m2 * 2 powr of_int e2"
    by (simp only: shift_val [OF e(1)] shift_val [OF e(2)])
  finally show ?thesis .
qed

lemma rint_nonneg:
  assumes "0 \<le> a"
  shows "0 \<le> rint a"
  using rint_mono [OF assms] rint_of_int [of 0] by simp

lemma b64_round_frac_mono:
  assumes p1: "0 < p1" and d1: "0 < d1" and p2: "0 < p2" and d2: "0 < d2"
    and le: "real_of_int p1 / real_of_int d1 * 2 powr of_int e1 \<le>
      real_of_int p2 / real_of_int d2 * 2 powr of_int e2"
  shows "b64_le (Dbl 0 0) (b64_round_frac p1 d1 e1) \<and>
    b64_le (b64_round_frac p1 d1 e1) (b64_round_frac p2 d2 e2)"
proof -
  define x1 where "x1 = real_of_int p1 / real_of_int d1 * 2 powr of_int e1"
  define x2 where "x2 = real_of_int p2 / real_of_int d2 * 2 powr of_int e2"
  obtain B1 q1 where s1: "2 powr of_int (B1 - 1) \<le> x1" "x1 < 2 powr of_int B1"
    "real_of_int q1 * 2 powr of_int (max (B1 - 53) (- 1074)) =
      rint (x1 / 2 powr of_int (max (B1 - 53) (- 1074))) * 2 powr of_int (max (B1 - 53) (- 1074))"
    "b64_round_frac p1 d1 e1 =
      (if 1024 < bitlen \<bar>q1\<bar> + max (B1 - 53) (- 1074) then DPInf
       else Dbl q1 (max (B1 - 53) (- 1074)))"
    unfolding x1_def using b64_round_frac_pos [OF p1 d1, of e1] by blast
  obtain B2 q2 where s2: "2 powr of_int (B2 - 1) \<le> x2" "x2 < 2 powr of_int B2"
    "real_of_int q2 * 2 powr of_int (max (B2 - 53) (- 1074)) =
      rint (x2 / 2 powr of_int (max (B2 - 53) (- 1074))) * 2 powr of_int (max (B2 - 53) (- 1074))"
    "b64_round_frac p2 d2 e2 =
      (if 1024 < bitlen \<bar>q2\<bar> + max (B2 - 53) (- 1074) then DPInf
       else Dbl q2 (max (B2 - 53) (- 1074)))"
    unfolding x2_def using b64_round_frac_pos [OF p2 d2, of e2] by blast
  define u1 where "u1 = max (B1 - 53) (- 1074)"
  define u2 where "u2 = max (B2 - 53) (- 1074)"
  have x12: "x1 \<le> x2" unfolding x1_def x2_def by (rule le)
  have x1pos: "0 < x1" using p1 d1 by (simp add: x1_def)
  have v: "real_of_int q1 * 2 powr of_int u1 \<le> real_of_int q2 * 2 powr of_int u2"
    unfolding u1_def u2_def s1(3) s2(3) by (rule grid_round_mono [OF x12 s1(1,2) s2(1,2)])
  have "0 \<le> rint (x1 / 2 powr of_int u1)"
    using x1pos by (intro rint_nonneg) simp
  then have "0 \<le> real_of_int q1 * 2 powr of_int u1"
    unfolding u1_def s1(3) by simp
  then have q1: "0 \<le> q1" by (simp add: zero_le_mult_iff)
  have "0 \<le> real_of_int q2 * 2 powr of_int u2" using v \<open>0 \<le> real_of_int q1 * 2 powr of_int u1\<close> by linarith
  then have q2: "0 \<le> q2" by (simp add: zero_le_mult_iff)
  have r1: "b64_round_frac p1 d1 e1 = (if 1024 < bitlen q1 + u1 then DPInf else Dbl q1 u1)"
    using s1(4) q1 by (simp add: u1_def)
  have r2: "b64_round_frac p2 d2 e2 = (if 1024 < bitlen q2 + u2 then DPInf else Dbl q2 u2)"
    using s2(4) q2 by (simp add: u2_def)
  have q1pos: "0 < q1" if "- 1074 < u1"
  proof -
    have u: "u1 = B1 - 53" using that unfolding u1_def by linarith
    have "(1::real) \<le> 2 powr of_int (B1 - 1 - u1)" unfolding u by simp
    also have "\<dots> = 2 powr of_int (B1 - 1) / 2 powr of_int u1" by (simp add: powr_diff)
    also have "\<dots> \<le> x1 / 2 powr of_int u1"
      using s1(1) by (intro divide_right_mono) simp_all
    finally have "rint 1 \<le> rint (x1 / 2 powr of_int u1)" by (rule rint_mono)
    moreover have "rint 1 = 1" using rint_of_int [of 1] by simp
    ultimately have "1 * 2 powr of_int u1 \<le> rint (x1 / 2 powr of_int u1) * 2 powr of_int u1"
      by (intro mult_right_mono) simp_all
    then have "0 < real_of_int q1 * 2 powr of_int u1"
      unfolding u1_def s1(3) using powr_gt_zero [of 2 "of_int (max (B1 - 53) (- 1074))"] by linarith
    then show ?thesis by (simp add: zero_less_mult_iff)
  qed
  have ov: "1024 < bitlen q2 + u2" if "1024 < bitlen q1 + u1"
  proof -
    have "0 < q1"
    proof (cases "q1 = 0")
      case True
      then have "- 1074 < u1" using that by simp
      then show ?thesis by (rule q1pos)
    next
      case False
      then show ?thesis using q1 by simp
    qed
    then have "2 powr 1024 \<le> real_of_int q1 * 2 powr of_int u1"
      using that by (simp only: overflow_iff)
    then have b: "2 powr 1024 \<le> real_of_int q2 * 2 powr of_int u2" using v by linarith
    then have "0 < real_of_int q2 * 2 powr of_int u2"
      using powr_gt_zero [of 2 1024] by linarith
    then have "0 < q2" by (simp add: zero_less_mult_iff)
    then show ?thesis using b by (simp only: overflow_iff)
  qed
  have z1: "b64_le (Dbl 0 0) (Dbl q1 u1)"
    unfolding b64_le_Dbl using q1 by simp
  have l12: "b64_le (Dbl q1 u1) (Dbl q2 u2)"
    unfolding b64_le_Dbl by (rule v)
  show ?thesis
  proof (cases "1024 < bitlen q2 + u2")
    case True
    then show ?thesis unfolding r1 r2 using z1 by simp
  next
    case False
    then have "\<not> 1024 < bitlen q1 + u1" using ov by blast
    then show ?thesis unfolding r1 r2 using False z1 l12 by (simp del: b64_le.simps)
  qed
qed

lemma b64_round_frac_zero [simp]: "b64_round_frac 0 d e = Dbl 0 0"
  by (simp add: b64_round_frac_def)

lemma b64_round_frac_mono0:
  assumes p1: "0 \<le> p1" and d1: "0 < d1" and d2: "0 < d2"
    and le: "real_of_int p1 / real_of_int d1 * 2 powr of_int e1 \<le>
      real_of_int p2 / real_of_int d2 * 2 powr of_int e2"
  shows "b64_le (Dbl 0 0) (b64_round_frac p1 d1 e1) \<and>
    b64_le (b64_round_frac p1 d1 e1) (b64_round_frac p2 d2 e2)"
proof -
  have "0 \<le> real_of_int p1 / real_of_int d1 * 2 powr of_int e1"
    using p1 d1 by simp
  then have "0 \<le> real_of_int p2 / real_of_int d2 * 2 powr of_int e2" using le by linarith
  then have p2: "0 \<le> p2" using d2 by (simp add: zero_le_mult_iff zero_le_divide_iff)
  have self: "b64_le (Dbl 0 0) (b64_round_frac p2 d2 e2)"
  proof (cases "p2 = 0")
    case True
    then show ?thesis by simp
  next
    case False
    then have "0 < p2" using p2 by simp
    then show ?thesis using b64_round_frac_mono [OF _ d2 _ d2, of p2 p2 e2 e2] by simp
  qed
  show ?thesis
  proof (cases "p1 = 0")
    case True
    then show ?thesis using self by simp
  next
    case False
    then have pos1: "0 < p1" using p1 by simp
    then have "0 < real_of_int p1 / real_of_int d1 * 2 powr of_int e1" using d1 by simp
    then have "0 < real_of_int p2 / real_of_int d2 * 2 powr of_int e2" using le by linarith
    then have "0 < p2" using d2 by (simp add: zero_less_mult_iff zero_less_divide_iff)
    then show ?thesis by (intro b64_round_frac_mono pos1 d1 d2 le)
  qed
qed

lemma b64_round_frac_underflow:
  assumes p: "0 < p" and d: "0 < d"
    and x: "real_of_int p / real_of_int d * 2 powr of_int e < 2 powr of_int (- 1075)"
  shows "b64_round_frac p d e = Dbl 0 (- 1074)"
proof -
  define X where "X = real_of_int p / real_of_int d * 2 powr of_int e"
  obtain B q where s: "2 powr of_int (B - 1) \<le> X"
    "real_of_int q * 2 powr of_int (max (B - 53) (- 1074)) =
      rint (X / 2 powr of_int (max (B - 53) (- 1074))) * 2 powr of_int (max (B - 53) (- 1074))"
    "b64_round_frac p d e =
      (if 1024 < bitlen \<bar>q\<bar> + max (B - 53) (- 1074) then DPInf
       else Dbl q (max (B - 53) (- 1074)))"
    unfolding X_def using b64_round_frac_pos [OF p d, of e] by blast
  have Xpos: "0 < X" using p d by (simp add: X_def)
  have "(2::real) powr of_int (B - 1) < 2 powr of_int (- 1075)"
    using s(1) x unfolding X_def by linarith
  then have "real_of_int (B - 1) < real_of_int (- 1075)" by (simp only: powr_less_cancel_iff)
  then have B: "B \<le> - 1075" by linarith
  then have u: "max (B - 53) (- 1074) = - 1074" by simp
  have "X / 2 powr of_int (- 1074) < 2 powr of_int (- 1075) / 2 powr of_int (- 1074)"
    using x unfolding X_def by (intro divide_strict_right_mono) simp_all
  also have "2 powr of_int (- 1075) / 2 powr of_int (- 1074) = (2::real) powr of_int (- 1)"
    by (simp only: powr_diff [symmetric] of_int_diff [symmetric]) simp
  also have "\<dots> = 1 / 2" by (simp add: powr_minus_divide)
  finally have lt: "X / 2 powr of_int (- 1074) < 1 / 2" .
  have "0 < X / 2 powr of_int (- 1074)" using Xpos by simp
  then have "rint (X / 2 powr of_int (- 1074)) = of_int 0"
    using lt by (intro rint_eq) simp_all
  then have "real_of_int q * 2 powr of_int (- 1074) = 0"
    using s(2) unfolding u by simp
  then have "q = 0" by simp
  then show ?thesis using s(3) unfolding u by simp
qed

lemma do_saturation_b64_underflow:
  assumes c: "0 < c" and m: "4 < real_of_int c * 2 powr of_int g"
    and a: "0 < a" "a \<le> 2"
  shows "do_saturation_b64 (Dbl a (- 1074)) (Dbl c g) = Dbl 0 0"
proof -
  define v where "v = real_of_int c * 2 powr of_int g"
  have "real_of_int a / real_of_int c * 2 powr of_int (- 1074 - g) =
      real_of_int a * 2 powr of_int (- 1074) / v"
    by (simp add: v_def powr_diff)
  also have "\<dots> \<le> 2 * 2 powr of_int (- 1074) / v"
    using a(2) m by (intro divide_right_mono mult_right_mono) (simp_all add: v_def)
  also have "\<dots> < 2 * 2 powr of_int (- 1074) / 4"
    using m by (intro divide_strict_left_mono) (simp_all add: v_def)
  also have "\<dots> = 2 powr of_int (- 1075)"
    by (simp add: powr_minus_divide powr_realpow [symmetric])
  finally have "b64_round_frac a c (- 1074 - g) = Dbl 0 (- 1074)"
    by (intro b64_round_frac_underflow a(1) c)
  then show ?thesis using c by (simp add: do_saturation_b64_def)
qed

lemma rint_minus: "rint (- y) = - rint y"
proof (cases "y = of_int \<lfloor>y\<rfloor>")
  case True
  then obtain n where n: "y = of_int n" ..
  have "rint (of_int (- n)) = of_int (- n)" by (rule rint_of_int)
  then show ?thesis unfolding n by simp
next
  case False
  define f where "f = \<lfloor>y\<rfloor>"
  define d where "d = y - of_int f"
  have d: "0 < d" "d < 1" using False unfolding d_def f_def by linarith+
  have fl: "\<lfloor>- y\<rfloor> = - f - 1" using d unfolding d_def by linarith
  have d': "- y - of_int (- f - 1) = 1 - d" by (simp add: d_def)
  have R: "rint y = (if d < 1 / 2 then of_int f else if 1 / 2 < d then of_int (f + 1)
      else if even f then of_int f else of_int (f + 1))"
    unfolding rint_def Let_def f_def d_def ..
  have N: "rint (- y) = (if 1 - d < 1 / 2 then of_int (- f - 1)
      else if 1 / 2 < 1 - d then of_int (- f - 1 + 1)
      else if even (- f - 1) then of_int (- f - 1) else of_int (- f - 1 + 1))"
    unfolding rint_def Let_def fl d' ..
  consider "d < 1 / 2" | "1 / 2 < d" | "d = 1 / 2" by linarith
  then show ?thesis
  proof cases
    case 1
    then show ?thesis unfolding R N by simp
  next
    case 2
    then show ?thesis unfolding R N by simp
  next
    case 3
    then show ?thesis unfolding R N by simp
  qed
qed

lemma rne_frac_minus:
  assumes "0 < b"
  shows "rne_frac (- a) b = - rne_frac a b"
proof -
  have "real_of_int (rne_frac (- a) b) = rint (- (real_of_int a / real_of_int b))"
    unfolding rne_frac_rint [OF assms] by simp
  also have "\<dots> = - real_of_int (rne_frac a b)"
    unfolding rint_minus rne_frac_rint [OF assms] ..
  also have "\<dots> = real_of_int (- rne_frac a b)" by simp
  finally show ?thesis by (simp only: of_int_eq_iff)
qed

lemma b64_round_frac_minus:
  assumes d: "0 < d"
  shows "b64_round_frac (- p) d e = b64_neg (b64_round_frac p d e)"
proof (cases "p = 0")
  case True
  then show ?thesis by simp
next
  case False
  define n where "n = bitlen \<bar>p\<bar> - bitlen d"
  define B where "B = (if d * 2 ^ nat n \<le> \<bar>p\<bar> * 2 ^ nat (- n) then n + 1 else n)"
  define ue where "ue = max (B + e - 53) (- 1074)"
  define q where "q = rne_frac (p * 2 ^ nat (e - ue)) (d * 2 ^ nat (ue - e))"
  define q' where "q' = rne_frac (- p * 2 ^ nat (e - ue)) (d * 2 ^ nat (ue - e))"
  have dpos: "0 < d * 2 ^ nat (ue - e)" using d by simp
  have "- p * 2 ^ nat (e - ue) = - (p * 2 ^ nat (e - ue))" by simp
  then have qm: "q' = - q"
    unfolding q_def q'_def by (simp only: rne_frac_minus [OF dpos])
  have P: "b64_round_frac p d e =
      (if 1024 < bitlen \<bar>q\<bar> + ue then (if 0 < p then DPInf else DNInf) else Dbl q ue)"
    using False unfolding b64_round_frac_def Let_def n_def [symmetric] B_def [symmetric]
        ue_def [symmetric] q_def [symmetric] by simp
  have "\<bar>- p\<bar> = \<bar>p\<bar>" by simp
  then have N: "b64_round_frac (- p) d e =
      (if 1024 < bitlen \<bar>q'\<bar> + ue then (if 0 < - p then DPInf else DNInf) else Dbl q' ue)"
    using False unfolding b64_round_frac_def Let_def
    by (simp only: n_def [symmetric] B_def [symmetric] ue_def [symmetric] q'_def [symmetric])
       simp
  show ?thesis unfolding P N qm using False by auto
qed

lemma b64_le_neg: "b64_le (b64_neg a) (b64_neg b) \<longleftrightarrow> b64_le b a"
  by (cases a; cases b) (simp_all only: b64_neg.simps b64_le_Dbl, simp_all)

lemma b64_le_zero_Dbl: "b64_le (Dbl 0 0) (Dbl m e) \<longleftrightarrow> 0 \<le> m"
  by (simp only: b64_le_Dbl) (simp add: zero_le_mult_iff)

lemma b64_le_through_zero:
  assumes "b64_le (Dbl 0 0) a" and "b64_le (Dbl 0 0) b"
  shows "b64_le (b64_neg a) b"
proof (cases a)
  case a: (Dbl m e)
  then have m: "0 \<le> m" using assms(1) by (simp only: b64_le_zero_Dbl)
  show ?thesis
  proof (cases b)
    case b: (Dbl m' e')
    then have m': "0 \<le> m'" using assms(2) by (simp only: b64_le_zero_Dbl)
    have "real_of_int (- m) * 2 powr of_int e \<le> 0" using m by (simp add: mult_le_0_iff)
    moreover have "0 \<le> real_of_int m' * 2 powr of_int e'" using m' by simp
    ultimately have "real_of_int (- m) * 2 powr of_int e \<le> real_of_int m' * 2 powr of_int e'"
      by linarith
    then show ?thesis unfolding a b b64_neg.simps b64_le_Dbl .
  next
    case DPInf
    then show ?thesis using a by simp
  next
    case DNInf
    then show ?thesis using assms(2) by simp
  next
    case DNaN
    then show ?thesis using assms(2) by simp
  qed
next
  case DPInf
  then show ?thesis using assms(2) by (cases b) simp_all
next
  case DNInf
  then show ?thesis using assms(1) by simp
next
  case DNaN
  then show ?thesis using assms(1) by simp
qed

lemma not_nan_shape:
  "(if a then Dbl x y else if b then (if c then DPInf else DNInf) else Dbl z w) \<noteq> DNaN"
  by simp

lemma b64_round_frac_not_nan: "b64_round_frac p d e \<noteq> DNaN"
  unfolding b64_round_frac_def Let_def by (rule not_nan_shape)


lemma b64_le_DNInf: "r \<noteq> DNaN \<Longrightarrow> b64_le DNInf r"
  by (cases r) simp_all


lemma b64_le_DPInf: "r \<noteq> DNaN \<Longrightarrow> b64_le r DPInf"
  by (cases r) simp_all


lemma b64_round_frac_nonneg:
  assumes "0 \<le> p" and "0 < d"
  shows "b64_le (Dbl 0 0) (b64_round_frac p d e)"
  using b64_round_frac_mono0 [OF assms assms(2), of e p e] by simp

lemma b64_round_frac_mono_all:
  assumes d1: "0 < d1" and d2: "0 < d2"
    and le: "real_of_int p1 / real_of_int d1 * 2 powr of_int e1 \<le>
      real_of_int p2 / real_of_int d2 * 2 powr of_int e2"
  shows "b64_le (b64_round_frac p1 d1 e1) (b64_round_frac p2 d2 e2)"
proof (cases "0 \<le> p1")
  case True
  then show ?thesis using b64_round_frac_mono0 [OF True d1 d2 le] by simp
next
  case False
  then have n1: "0 \<le> - p1" by simp
  have r1: "b64_round_frac p1 d1 e1 = b64_neg (b64_round_frac (- p1) d1 e1)"
    using b64_round_frac_minus [OF d1, of "- p1" e1] by simp
  show ?thesis
  proof (cases "0 \<le> p2")
    case True
    show ?thesis
      unfolding r1
      by (intro b64_le_through_zero b64_round_frac_nonneg n1 True d1 d2)
  next
    case False
    then have n2: "0 \<le> - p2" by simp
    have r2: "b64_round_frac p2 d2 e2 = b64_neg (b64_round_frac (- p2) d2 e2)"
      using b64_round_frac_minus [OF d2, of "- p2" e2] by simp
    have "real_of_int (- p2) / real_of_int d2 * 2 powr of_int e2 \<le>
        real_of_int (- p1) / real_of_int d1 * 2 powr of_int e1"
      using le by simp
    then have "b64_le (b64_round_frac (- p2) d2 e2) (b64_round_frac (- p1) d1 e1)"
      using b64_round_frac_mono0 [OF n2 d2 d1] by simp
    then show ?thesis unfolding r1 r2 by (simp only: b64_le_neg)
  qed
qed

lemma b64_div_mono_all:
  assumes c: "0 < c" and le: "b64_le (Dbl a1 f1) (Dbl a2 f2)"
  shows "b64_le (b64_div (Dbl a1 f1) (Dbl c g)) (b64_div (Dbl a2 f2) (Dbl c g))"
proof -
  have d: "b64_div (Dbl a f) (Dbl c g) = b64_round_frac a c (f - g)" for a f
    using c by simp
  have v: "real_of_int a / real_of_int c * 2 powr of_int (f - g) =
      real_of_int a * 2 powr of_int f / (real_of_int c * 2 powr of_int g)" for a f
    by (simp add: powr_diff)
  have pos: "0 < real_of_int c * 2 powr of_int g" using c by simp
  have "real_of_int a1 * 2 powr of_int f1 \<le> real_of_int a2 * 2 powr of_int f2"
    using le by (simp only: b64_le_Dbl)
  then have "real_of_int a1 * 2 powr of_int f1 / (real_of_int c * 2 powr of_int g) \<le>
      real_of_int a2 * 2 powr of_int f2 / (real_of_int c * 2 powr of_int g)"
    using pos by (intro divide_right_mono) simp_all
  then show ?thesis
    unfolding d v [symmetric] by (intro b64_round_frac_mono_all c)
qed

lemma b64_mul_100_mono_all:
  assumes le: "b64_le Q1 Q2"
  shows "b64_le (b64_mul Q1 (Dbl 100 0)) (b64_mul Q2 (Dbl 100 0))"
proof (cases Q1)
  case Q1: (Dbl q1 u1)
  have m1: "b64_mul Q1 (Dbl 100 0) = b64_round_frac (q1 * 100) 1 u1" by (simp add: Q1)
  show ?thesis
  proof (cases Q2)
    case Q2: (Dbl q2 u2)
    have "real_of_int q1 * 2 powr of_int u1 \<le> real_of_int q2 * 2 powr of_int u2"
      using le unfolding Q1 Q2 b64_le_Dbl .
    then have "real_of_int (q1 * 100) / real_of_int 1 * 2 powr of_int u1 \<le>
        real_of_int (q2 * 100) / real_of_int 1 * 2 powr of_int u2"
      by simp
    then have "b64_le (b64_round_frac (q1 * 100) 1 u1) (b64_round_frac (q2 * 100) 1 u2)"
      by (intro b64_round_frac_mono_all) simp_all
    then show ?thesis by (simp add: m1 Q2)
  next
    case DPInf
    then show ?thesis by (simp add: m1 b64_le_DPInf b64_round_frac_not_nan)
  next
    case DNInf
    then show ?thesis using le Q1 by simp
  next
    case DNaN
    then show ?thesis using le Q1 by simp
  qed
next
  case DPInf
  then show ?thesis using le by (cases Q2) simp_all
next
  case DNInf
  show ?thesis
  proof (cases Q2)
    case (Dbl q2 u2)
    then show ?thesis by (simp add: DNInf b64_le_DNInf b64_round_frac_not_nan)
  qed (use le DNInf in simp_all)
next
  case DNaN
  then show ?thesis using le by simp
qed


lemma do_saturation_b64_mono_all:
  assumes "0 < c" and "b64_le (Dbl a1 f1) (Dbl a2 f2)"
  shows "b64_le (do_saturation_b64 (Dbl a1 f1) (Dbl c g)) (do_saturation_b64 (Dbl a2 f2) (Dbl c g))"
  unfolding do_saturation_b64_def
  by (intro b64_mul_100_mono_all b64_div_mono_all assms)

lemma do_max_example:
  "9.05 < real_of_int 5108205482009313 * 2 powr of_int (- 49) \<and>
   real_of_int 5108205482009313 * 2 powr of_int (- 49) < 9.15"
  by (simp add: powr_minus_divide powr_realpow [symmetric])

section \<open>The claims of the specification\<close>

subsection \<open>C1: the percentage is the ratio times one hundred\<close>

text \<open>
  Claim C1.  Whenever \<open>do_at_saturation t p\<close> returns a finite nonzero concentration \<open>m\<close> and
  the measured concentration is the finite value \<open>x\<close>, \<open>do_saturation\<close> returns
  \<open>(x / m) * 100\<close>.
\<close>

theorem do_saturation_formula:
  assumes "do_at_saturation t p = Inr c" and "val c = Fin m" and "m \<noteq> 0"
    and "val d = Fin x"
  shows "do_saturation d t p = Inr (Np (Fin (x / m * 100)))"
  using assms by (simp add: do_saturation_of_max)

text \<open>
  Claim C1, witness: the hypotheses hold at 20 degrees and 760 mmHg, with a measured
  concentration of 9.1 mg/l.
\<close>

theorem do_saturation_formula_witness:
  "\<exists>c m. do_at_saturation (Py (Fin 20)) (Py (Fin 760)) = Inr c \<and> val c = Fin m \<and> m \<noteq> 0 \<and>
     do_saturation (Py (Fin 9.1)) (Py (Fin 20)) (Py (Fin 760)) = Inr (Np (Fin (9.1 / m * 100)))"
proof -
  obtain m where m: "do_at_saturation (Py (Fin 20)) (Py (Fin 760)) = Inr (Np (Fin m))" "0 < m"
    using das_20_760 by blast
  have "do_saturation (Py (Fin 9.1)) (Py (Fin 20)) (Py (Fin 760)) = Inr (Np (Fin (9.1 / m * 100)))"
    using do_saturation_formula [OF m(1), of m "Py (Fin 9.1)" "9.1"] m(2) by simp
  then show ?thesis using m by auto
qed

subsection \<open>C2: the reference points of the self-test\<close>

text \<open>
  Claim C2.  Rounded to one decimal, the vapour pressure at 0, 5 and 50 degrees is 4.6, 6.5
  and 92.5, and the saturation concentration at 20 degrees and 760 mmHg is 9.1.
\<close>

theorem reference_points:
  "ebind (vapor_pressure_of_water (Py (Fin 0))) (\<lambda>r. Inr (np_round1 r)) = Inr (Np (Fin 4.6)) \<and>
   ebind (vapor_pressure_of_water (Py (Fin 5))) (\<lambda>r. Inr (np_round1 r)) = Inr (Np (Fin 6.5)) \<and>
   ebind (vapor_pressure_of_water (Py (Fin 50))) (\<lambda>r. Inr (np_round1 r)) = Inr (Np (Fin 92.5)) \<and>
   ebind (do_at_saturation (Py (Fin 20)) (Py (Fin 760))) (\<lambda>r. Inr (np_round1 r)) =
     Inr (Np (Fin 9.1))"
  by (intro conjI round_vp0 round_vp5 round_vp50 round_sat20)

subsection \<open>C3: the pressure correction at one atmosphere\<close>

text \<open>
  Claim C3 as stated fails: at \<open>t = - 235.1\<close> the power \<^verbatim>\<open>10 ** x\<close> overflows.  For a numpy
  \<open>t\<close> the vapour pressure is infinite and the denominator \<open>760 - inf\<close> is minus infinity,
  which is not zero, yet \<open>pressure_correction(760, t)\<close> is NaN; for a Python \<open>t\<close> the call
  raises \<^verbatim>\<open>OverflowError\<close>.
\<close>

theorem pressure_correction_overflow_counterexample:
  "vapor_pressure_of_water (Np (Fin (- 235.1))) = Inr (Np PInf) \<and>
   py_sub (Py (Fin 760)) (Np PInf) = Np NInf \<and>
   pressure_correction (Py (Fin 760)) (Np (Fin (- 235.1))) = Inr (Np NaN) \<and>
   pressure_correction (Py (Fin 760)) (Py (Fin (- 235.1))) = Inl OverflowError"
proof -
  have x: "- 240.8 \<le> (- 235.1 :: real)" "(- 235.1 :: real) < - 235" by simp_all
  show ?thesis
    using vp_overflow(1) [OF x] pc_overflow [OF x] by (simp add: py_sub_def fsub_def)
qed

text \<open>
  Claim C3, amended.  With a pressure of 760 and a finite vapour pressure other than 760,
  so that the denominator is a nonzero finite number, \<open>pressure_correction\<close> returns
  exactly 1; in particular \<open>pressure_correction(760, 22)\<close> rounds to 1.0.  A nonzero
  denominator alone is not enough: for \<open>- 240.8 \<le> t < - 235\<close> the power overflows, and
  \<open>pressure_correction\<close> returns NaN for a numpy \<open>t\<close> and raises \<^verbatim>\<open>OverflowError\<close> for a
  Python \<open>t\<close>, at any pressure.
\<close>

theorem pressure_correction_at_760:
  "(\<forall>t u v p. vapor_pressure_of_water t = Inr u \<and> val u = Fin v \<and> v \<noteq> 760 \<and> val p = Fin 760
      \<longrightarrow> pressure_correction p t = Inr ((if is_np p \<or> is_np u then Np else Py) (Fin 1))) \<and>
   ebind (pressure_correction (Py (Fin 760)) (Py (Fin 22))) (\<lambda>r. Inr (np_round1 r)) =
     Inr (Np (Fin 1)) \<and>
   (\<forall>x p. - 240.8 \<le> x \<and> x < - 235 \<longrightarrow>
      pressure_correction p (Np (Fin x)) = Inr (Np NaN) \<and>
      pressure_correction p (Py (Fin x)) = Inl OverflowError)"
proof -
  obtain v where v: "vapor_pressure_of_water (Py (Fin 22)) = Inr (Py (Fin v))" "v < 100"
    using vp_22 by blast
  have "pressure_correction (Py (Fin 760)) (Py (Fin 22)) = Inr (Py (Fin 1))"
    using pc_760 [OF v(1), of v "Py (Fin 760)"] v(2) by simp
  then have "ebind (pressure_correction (Py (Fin 760)) (Py (Fin 22))) (\<lambda>r. Inr (np_round1 r)) =
     Inr (Np (Fin 1))"
    by (simp add: np_round1_def fround1_one del: fround1.simps)
  then show ?thesis using pc_760 pc_overflow by blast
qed

text \<open>
  Claim C3, witness: a numpy temperature of 20 degrees for the first part, \<open>- 236\<close>
  degrees for the overflow.
\<close>

theorem pressure_correction_at_760_witness:
  "(\<exists>v. vapor_pressure_of_water (Np (Fin 20)) = Inr (Np (Fin v)) \<and> v \<noteq> 760 \<and>
      pressure_correction (Py (Fin 760)) (Np (Fin 20)) = Inr (Np (Fin 1))) \<and>
   (- 240.8 :: real) \<le> - 236 \<and> (- 236 :: real) < - 235 \<and>
   pressure_correction (Py (Fin 760)) (Np (Fin (- 236))) = Inr (Np NaN) \<and>
   pressure_correction (Py (Fin 760)) (Py (Fin (- 236))) = Inl OverflowError"
proof -
  obtain v where v: "vapor_pressure_of_water (Np (Fin 20)) = Inr (Np (Fin v))" "v < 100"
    using vp_finite [of "Np (Fin 20)" 20] vp_lt_100 [of 20] by simp
  have "pressure_correction (Py (Fin 760)) (Np (Fin 20)) = Inr (Np (Fin 1))"
    using pressure_correction_at_760 [THEN conjunct1, rule_format,
        of "Np (Fin 20)" "Np (Fin v)" v "Py (Fin 760)"] v by simp
  moreover have "pressure_correction (Py (Fin 760)) (Np (Fin (- 236))) = Inr (Np NaN) \<and>
      pressure_correction (Py (Fin 760)) (Py (Fin (- 236))) = Inl OverflowError"
    using pressure_correction_at_760 [THEN conjunct2, THEN conjunct2, rule_format,
        of "- 236" "Py (Fin 760)"] by simp
  ultimately show ?thesis using v by auto
qed

subsection \<open>C4: the round trip through Kelvin\<close>

text \<open>
  Claim C4 as stated fails in binary64 arithmetic: for \<open>t = 0.1\<close>, the binary64 number
  \<open>7205759403792794 * 2 ^ - 56\<close>, the Kelvin value rounds to 273.25 and the way back gives
  \<open>1759218604442 * 2 ^ - 44\<close>, about 0.10000000000002274, which \<^verbatim>\<open>==\<close> tells from \<open>t\<close>.
\<close>

theorem round_trip_counterexample:
  "kelvin2deg_b64 (deg2kelvin_b64 (Dbl 7205759403792794 (- 56))) = Dbl 1759218604442 (- 44) \<and>
   \<not> b64_eq (kelvin2deg_b64 (deg2kelvin_b64 (Dbl 7205759403792794 (- 56))))
     (Dbl 7205759403792794 (- 56))"
  by code_simp

text \<open>
  Claim C4, amended.  In exact arithmetic \<open>kelvin2deg (deg2kelvin t) = t\<close> for every finite
  \<open>t\<close>.  In binary64 arithmetic the round trip returns \<open>t\<close> itself when \<open>t\<close> is a multiple of
  \<open>2 ^ - 44\<close> between \<open>- 273\<close> and 238 (every integer temperature there), and for every
  binary64 \<open>t\<close> between \<open>- 145\<close> and 238 it returns a number within \<open>2 ^ - 45\<close> of \<open>t\<close>.
\<close>

theorem round_trip_binary64:
  "(val t = Fin x \<longrightarrow> val (kelvin2deg (deg2kelvin t)) = Fin x) \<and>
   (- 44 \<le> e \<and> - 273 \<le> b64_val (Dbl m e) \<and> b64_val (Dbl m e) \<le> 238 \<longrightarrow>
      b64_eq (kelvin2deg_b64 (deg2kelvin_b64 (Dbl m e))) (Dbl m e)) \<and>
   (- 145 \<le> b64_val (Dbl m e) \<and> b64_val (Dbl m e) \<le> 238 \<longrightarrow>
      (\<exists>q u. kelvin2deg_b64 (deg2kelvin_b64 (Dbl m e)) = Dbl q u \<and>
         \<bar>b64_val (Dbl q u) - b64_val (Dbl m e)\<bar> \<le> 2 powr (- 45)))"
  using round_trip_exact_arithmetic round_trip_grid_eq round_trip_error by blast

text \<open>
  Claim C4, witness: 20 degrees.
\<close>

theorem round_trip_binary64_witness:
  "val (kelvin2deg (deg2kelvin (Py (Fin 20)))) = Fin 20 \<and>
   b64_eq (kelvin2deg_b64 (deg2kelvin_b64 (Dbl 20 0))) (Dbl 20 0) \<and>
   (\<exists>q u. kelvin2deg_b64 (deg2kelvin_b64 (Dbl 20 0)) = Dbl q u \<and>
      \<bar>b64_val (Dbl q u) - b64_val (Dbl 20 0)\<bar> \<le> 2 powr (- 45))"
  using round_trip_binary64 [of "Py (Fin 20)" 20 0 20] by simp

subsection \<open>C5: the vapour pressure at minus 235 degrees\<close>

text \<open>
  Claim C5 as stated fails: for the numpy scalar \<open>- 235\<close> the division gives an infinity,
  the exponent is minus infinity and the function returns 0.0; nothing is raised.
\<close>

theorem vapor_pressure_numpy_counterexample:
  "vapor_pressure_of_water (Np (Fin (- 235))) = Inr (Np (Fin 0))"
  by (rule vp_Np_235)

text \<open>
  Claim C5, amended.  For the Python number \<open>- 235\<close> the function raises
  \<open>ZeroDivisionError\<close>; for the numpy scalar \<open>- 235\<close> it raises nothing and returns 0.0.
\<close>

theorem vapor_pressure_at_minus_235:
  "vapor_pressure_of_water (Py (Fin (- 235))) = Inl ZeroDivisionError \<and>
   vapor_pressure_of_water (Np (Fin (- 235))) = Inr (Np (Fin 0))"
  using vp_Py_235 vp_Np_235 by simp

subsection \<open>C6: temperatures at or below absolute zero\<close>

text \<open>
  Claim C6 as stated fails: at \<open>- 300\<close> degrees and 760 mmHg the function raises nothing
  and returns NaN.
\<close>

theorem do_at_saturation_nan_counterexample:
  "do_at_saturation (Py (Fin (- 300))) (Py (Fin 760)) = Inr (Np NaN)"
  by (rule das_below_absolute_zero [where x = "- 300"]) simp_all

text \<open>
  Claim C6, amended.  For every finite temperature below \<open>- 273.15\<close>, of either kind and at
  any pressure, \<open>do_at_saturation\<close> returns NaN; at \<open>- 273.15\<close> itself it returns NaN for a
  numpy scalar and raises \<open>ZeroDivisionError\<close> for a Python number.
\<close>

theorem do_at_saturation_unphysical:
  "(val t = Fin x \<and> x < - 273.15 \<longrightarrow> do_at_saturation t p = Inr (Np NaN)) \<and>
   do_at_saturation (Np (Fin (- 273.15))) p = Inr (Np NaN) \<and>
   do_at_saturation (Py (Fin (- 273.15))) p = Inl ZeroDivisionError"
  using das_below_absolute_zero das_Np_absolute_zero das_Py_absolute_zero by blast

text \<open>
  Claim C6, witness: a numpy temperature of \<open>- 280\<close> degrees at 760 mmHg.
\<close>

theorem do_at_saturation_unphysical_witness:
  "(- 280 :: real) < - 273.15 \<and>
   do_at_saturation (Np (Fin (- 280))) (Py (Fin 760)) = Inr (Np NaN)"
  using do_at_saturation_unphysical [of "Np (Fin (- 280))" "- 280" "Py (Fin 760)"] by simp

subsection \<open>C7: a saturation concentration that is not positive\<close>

text \<open>
  Claim C7 as stated fails: at 20 degrees and a pressure of 0 the saturation concentration
  is negative, and \<open>do_saturation\<close> divides by it and returns a negative percentage.
\<close>

theorem do_saturation_negative_counterexample:
  "\<not> isl (do_at_saturation (Py (Fin 20)) (Py (Fin 0))) \<and>
   fless (val (projr (do_at_saturation (Py (Fin 20)) (Py (Fin 0))))) (Fin 0) \<and>
   \<not> isl (do_saturation (Py (Fin 5)) (Py (Fin 20)) (Py (Fin 0))) \<and>
   fless (val (projr (do_saturation (Py (Fin 5)) (Py (Fin 20)) (Py (Fin 0))))) (Fin 0)"
proof -
  obtain m where m: "do_at_saturation (Py (Fin 20)) (Py (Fin 0)) = Inr (Np (Fin m))" "m < 0"
    using das_20_0 by blast
  have "do_saturation (Py (Fin 5)) (Py (Fin 20)) (Py (Fin 0)) = Inr (Np (Fin (5 / m * 100)))"
    using m by (simp add: do_saturation_of_max)
  moreover have "5 / m * 100 < 0" using m(2) by (simp add: divide_neg_pos field_simps)
  ultimately show ?thesis using m by simp
qed

text \<open>
  Claim C7, amended.  Whenever \<open>do_at_saturation\<close> returns a value \<open>c\<close>, \<open>do_saturation\<close>
  raises nothing: it returns the numpy quotient of the measured concentration by \<open>c\<close>, times
  one hundred, whatever the sign of \<open>c\<close>.
\<close>

theorem do_saturation_never_checks:
  assumes "do_at_saturation t p = Inr c"
  shows "do_saturation d t p = Inr (Np (fmul (fdiv (val d) (val c)) (Fin 100)))"
  using assms by (rule do_saturation_of_max)

text \<open>
  Claim C7, witness: 20 degrees and a pressure of 0.
\<close>

theorem do_saturation_never_checks_witness:
  "\<exists>c. do_at_saturation (Py (Fin 20)) (Py (Fin 0)) = Inr c \<and>
    do_saturation (Py (Fin 5)) (Py (Fin 20)) (Py (Fin 0)) =
      Inr (Np (fmul (fdiv (Fin 5) (val c)) (Fin 100)))"
proof -
  obtain m where m: "do_at_saturation (Py (Fin 20)) (Py (Fin 0)) = Inr (Np (Fin m))"
    using das_20_0 by blast
  show ?thesis
    using do_saturation_never_checks [OF m, of "Py (Fin 5)"] m by simp
qed

subsection \<open>C8: the error of the self-test\<close>

text \<open>
  Claim C8 as stated fails: two failing runs with different expected and different computed
  values raise the very same error, so the error shows neither of them.
\<close>

theorem unit_test_error_counterexample:
  "unit_test vapor_pressure_of_water ''vapor_pressure_of_water'' [Py (Fin 0)] [Py (Fin 4.7)] =
     Inl (ValueError [''function'', ''vapor_pressure_of_water'', ''failed test'']) \<and>
   unit_test vapor_pressure_of_water ''vapor_pressure_of_water'' [Py (Fin 5)] [Py (Fin 6.4)] =
     Inl (ValueError [''function'', ''vapor_pressure_of_water'', ''failed test''])"
proof -
  have "test_returns vapor_pressure_of_water [Py (Fin 0)] = Inr [Np (Fin 4.6)]"
    using round_vp0 by (rule test_returns_single)
  moreover have "test_returns vapor_pressure_of_water [Py (Fin 5)] = Inr [Np (Fin 6.5)]"
    using round_vp5 by (rule test_returns_single)
  ultimately show ?thesis by (simp add: unit_test_def py_eq_def)
qed

text \<open>
  Claim C8, amended.  When the rounded results differ from the expected outputs,
  \<open>unit_test\<close> raises a \<open>ValueError\<close> whose arguments are \<open>function\<close>, the name of the
  function under test and \<open>failed test\<close>.
\<close>

theorem unit_test_names_function:
  assumes "test_returns func test_input = Inr rs" and "\<not> list_eq test_outputs rs"
  shows "unit_test func name test_input test_outputs =
    Inl (ValueError [''function'', name, ''failed test''])"
  using assms by (simp add: unit_test_def)

text \<open>
  Claim C8, witness: the vapour pressure at 50 degrees against the expected value 92.4.
\<close>

theorem unit_test_names_function_witness:
  "test_returns vapor_pressure_of_water [Py (Fin 50)] = Inr [Np (Fin 92.5)] \<and>
   \<not> list_eq [Py (Fin 92.4)] [Np (Fin 92.5)] \<and>
   unit_test vapor_pressure_of_water ''vapor_pressure_of_water'' [Py (Fin 50)] [Py (Fin 92.4)] =
     Inl (ValueError [''function'', ''vapor_pressure_of_water'', ''failed test''])"
proof -
  have r: "test_returns vapor_pressure_of_water [Py (Fin 50)] = Inr [Np (Fin 92.5)]"
    using round_vp50 by (rule test_returns_single)
  have n: "\<not> list_eq [Py (Fin 92.4)] [Np (Fin 92.5)]" by (simp add: py_eq_def)
  show ?thesis
    using unit_test_names_function [OF r n, of "''vapor_pressure_of_water''"] r n by simp
qed

subsection \<open>C9: the percentage does not fall when the measured concentration grows\<close>

text \<open>
  Claim C9 as stated fails in binary64 arithmetic.  With \<open>do_max = 9.073995745029096\<close>,
  the binary64 number \<open>5108205482009313 * 2 ^ - 49\<close> (it lies within the bounds proved
  above for \<open>do_at_saturation(20, 760)\<close>, lemma \<open>do_max_example\<close>), the measured
  concentrations 5.0 and \<open>5.0 + 2 ^ - 50\<close> both give \<open>7754989770213780 * 2 ^ - 47\<close>, that is
  55.1025164711929: the first is smaller than the second, the percentages are equal.
\<close>

theorem do_saturation_ties_counterexample:
  "b64_less (Dbl 5 0) (Dbl 5629499534213121 (- 50)) \<and>
   do_saturation_b64 (Dbl 5 0) (Dbl 5108205482009313 (- 49)) =
     Dbl 7754989770213780 (- 47) \<and>
   do_saturation_b64 (Dbl 5629499534213121 (- 50)) (Dbl 5108205482009313 (- 49)) =
     Dbl 7754989770213780 (- 47) \<and>
   \<not> b64_less (do_saturation_b64 (Dbl 5 0) (Dbl 5108205482009313 (- 49)))
     (do_saturation_b64 (Dbl 5629499534213121 (- 50)) (Dbl 5108205482009313 (- 49)))"
  by code_simp

text \<open>
  Claim C9, amended.  In binary64 arithmetic the percentage is non-decreasing in the
  measured concentration: for every positive finite \<open>do_max\<close> and all finite binary64
  \<open>do1 \<le> do2\<close>, \<open>(do1 / do_max) * 100 \<le> (do2 / do_max) * 100\<close>.  It is not strictly
  increasing: for every \<open>do_max\<close> above 4 the two smallest positive binary64 numbers both
  give 0.0.
\<close>

theorem do_saturation_nondecreasing:
  "(0 < c \<and> b64_le (Dbl a1 f1) (Dbl a2 f2) \<longrightarrow>
      b64_le (do_saturation_b64 (Dbl a1 f1) (Dbl c g))
        (do_saturation_b64 (Dbl a2 f2) (Dbl c g))) \<and>
   (0 < c \<and> 4 < b64_val (Dbl c g) \<longrightarrow>
      do_saturation_b64 (Dbl 1 (- 1074)) (Dbl c g) = Dbl 0 0 \<and>
      do_saturation_b64 (Dbl 2 (- 1074)) (Dbl c g) = Dbl 0 0)"
  using do_saturation_b64_mono_all [of c a1 f1 a2 f2 g]
    do_saturation_b64_underflow [of c g 1] do_saturation_b64_underflow [of c g 2]
  by simp

text \<open>
  Claim C9, witness: 5.0 and \<open>5.0 + 2 ^ - 50\<close> for the first part, with
  \<open>do_max = 9.073995745029096\<close> for both.
\<close>

theorem do_saturation_nondecreasing_witness:
  "b64_le (Dbl 5 0) (Dbl 5629499534213121 (- 50)) \<and>
   b64_le (do_saturation_b64 (Dbl 5 0) (Dbl 5108205482009313 (- 49)))
     (do_saturation_b64 (Dbl 5629499534213121 (- 50)) (Dbl 5108205482009313 (- 49))) \<and>
   4 < b64_val (Dbl 5108205482009313 (- 49)) \<and>
   do_saturation_b64 (Dbl 1 (- 1074)) (Dbl 5108205482009313 (- 49)) = Dbl 0 0 \<and>
   do_saturation_b64 (Dbl 2 (- 1074)) (Dbl 5108205482009313 (- 49)) = Dbl 0 0"
proof -
  have l: "b64_le (Dbl 5 0) (Dbl 5629499534213121 (- 50))" by code_simp
  have v: "4 < b64_val (Dbl 5108205482009313 (- 49))"
    using do_max_example by simp
  show ?thesis
    using do_saturation_nondecreasing [of 5108205482009313 5 0 5629499534213121 "- 50" "- 49"] l v
    by simp
qed

subsection \<open>C10: the saturation concentration is one hundred percent\<close>

text \<open>
  Claim C10.  Where \<open>do_at_saturation t p\<close> returns a finite nonzero concentration, feeding
  it back as the measured concentration gives exactly 100.
\<close>

theorem saturation_fed_back:
  assumes "do_at_saturation t p = Inr c" and "val c = Fin m" and "m \<noteq> 0"
  shows "do_saturation c t p = Inr (Np (Fin 100))"
  using assms by (simp add: do_saturation_of_max)

text \<open>
  Claim C10, witness: 20 degrees and 760 mmHg.
\<close>

theorem saturation_fed_back_witness:
  "\<exists>c m. do_at_saturation (Py (Fin 20)) (Py (Fin 760)) = Inr c \<and> val c = Fin m \<and> m \<noteq> 0 \<and>
     do_saturation c (Py (Fin 20)) (Py (Fin 760)) = Inr (Np (Fin 100))"
proof -
  obtain m where m: "do_at_saturation (Py (Fin 20)) (Py (Fin 760)) = Inr (Np (Fin m))" "0 < m"
    using das_20_760 by blast
  have "do_saturation (Np (Fin m)) (Py (Fin 20)) (Py (Fin 760)) = Inr (Np (Fin 100))"
    using saturation_fed_back [OF m(1), of m] m(2) by simp
  then show ?thesis using m by auto
qed

end
